theory Spec2Isabelle
  imports Complex_Main
begin

section \<open>Scene timing and zoom geometry of shorts_art\<close>

text \<open>
  The development embeds two modules of the repository:
  \<^item> \<^verbatim>\<open>modules/image_processor.py\<close>: \<^verbatim>\<open>_calculate_crop_box\<close> and
    \<^verbatim>\<open>_fit_to_aspect_ratio\<close>, with \<^verbatim>\<open>clamp\<close> of \<^verbatim>\<open>modules/utils.py\<close>;
  \<^item> \<^verbatim>\<open>modules/audio_analyzer.py\<close>: \<^verbatim>\<open>_calculate_scene_timings\<close> and
    \<^verbatim>\<open>distribute_scenes_to_timings\<close>.

  Python integers are \<open>int\<close>. Python floats are embedded as exact real numbers (\<open>real\<close>):
  the functions below compute the arithmetic the code writes down, without rounding
  error. Binary floating point can move a computed value by a few units in the last place,
  and so move a truncated value by one when the exact value is a whole number. The
  statements about pixels and indices are therefore given with the bounds that hold on
  both sides of such a step, and the inputs of the counterexamples are small integers and
  dyadic fractions, on which binary floating point returns the same results. Where a claim
  is about the rounding itself (whether returned durations add up exactly), the even split
  is embedded a second time with every floating-point operation rounded to binary64
  (\<open>fl64\<close>).
  Exceptions are values: a function that can raise returns \<open>py_error + 'a\<close>.
\<close>

subsection \<open>Python primitives\<close>

datatype py_error = ZeroDivisionError | ValueError | IndexError

text \<open>\<^verbatim>\<open>int(v)\<close> on a float truncates toward zero.\<close>

definition py_int :: "real \<Rightarrow> int" where
  "py_int v = (if 0 \<le> v then \<lfloor>v\<rfloor> else \<lceil>v\<rceil>)"

text \<open>
  List subscription \<^verbatim>\<open>xs[i]\<close>. An index from \<open>0\<close> up to the length reads
  forward, one from \<open>- length\<close> up to \<open>-1\<close> reads from the end, and any other index
  raises \<^verbatim>\<open>IndexError\<close>.
\<close>

definition py_get :: "'a list \<Rightarrow> int \<Rightarrow> py_error + 'a" where
  "py_get xs i =
     (if 0 \<le> i \<and> i < int (length xs) then Inr (xs ! nat i)
      else if i < 0 \<and> - int (length xs) \<le> i then Inr (xs ! nat (int (length xs) + i))
      else Inl IndexError)"

text \<open>\<^verbatim>\<open>utils.clamp\<close>: \<^verbatim>\<open>return max(min_value, min(max_value, value))\<close>.\<close>

definition clamp :: "real \<Rightarrow> real \<Rightarrow> real \<Rightarrow> real" where
  "clamp val min_value max_value = max min_value (min max_value val)"

subsection \<open>Geometry: \<^verbatim>\<open>ImageProcessor._calculate_crop_box\<close>\<close>

text \<open>
  The source updates \<^verbatim>\<open>left, right\<close> (and \<^verbatim>\<open>top, bottom\<close>) in place in four
  successive \<^verbatim>\<open>if\<close> statements; the embedding rebinds the pair after each statement, in
  the source's order. \<^verbatim>\<open>right -= left; left = 0\<close> reads the old \<^verbatim>\<open>left\<close>.
  The only operation that can raise is the division by \<^verbatim>\<open>zoom\<close>.
\<close>

definition calculate_crop_box ::
  "int \<Rightarrow> int \<Rightarrow> real \<Rightarrow> real \<Rightarrow> real \<Rightarrow> py_error + (int \<times> int \<times> int \<times> int)" where
  "calculate_crop_box img_width img_height x y zoom =
     (if zoom = 0 then Inl ZeroDivisionError
      else
        let crop_width = of_int img_width / zoom;
            crop_height = of_int img_height / zoom;
            center_x = of_int img_width * x;
            center_y = of_int img_height * y;
            left = center_x - crop_width / 2;
            top = center_y - crop_height / 2;
            right = center_x + crop_width / 2;
            bottom = center_y + crop_height / 2;
            (left, right) = (if left < 0 then (0, right - left) else (left, right));
            (top, bottom) = (if top < 0 then (0, bottom - top) else (top, bottom));
            (left, right) =
               (if right > of_int img_width
                then (left - (right - of_int img_width), of_int img_width)
                else (left, right));
            (top, bottom) =
               (if bottom > of_int img_height
                then (top - (bottom - of_int img_height), of_int img_height)
                else (top, bottom));
            left = clamp left 0 (of_int img_width);
            top = clamp top 0 (of_int img_height);
            right = clamp right 0 (of_int img_width);
            bottom = clamp bottom 0 (of_int img_height)
        in Inr (py_int left, py_int top, py_int right, py_int bottom))"

text \<open>
  The same computation along one axis, before truncation. It is a proof device: lemma
  \<open>calculate_crop_box_axes\<close> shows that the function above is this one applied to the
  horizontal and to the vertical axis.
\<close>

definition crop_axis :: "int \<Rightarrow> real \<Rightarrow> real \<Rightarrow> real \<times> real" where
  "crop_axis extent c zoom =
     (let crop_extent = of_int extent / zoom;
          center = of_int extent * c;
          lo = center - crop_extent / 2;
          hi = center + crop_extent / 2;
          (lo, hi) = (if lo < 0 then (0, hi - lo) else (lo, hi));
          (lo, hi) =
             (if hi > of_int extent then (lo - (hi - of_int extent), of_int extent)
              else (lo, hi))
      in (clamp lo 0 (of_int extent), clamp hi 0 (of_int extent)))"

subsection \<open>Geometry: \<^verbatim>\<open>ImageProcessor._fit_to_aspect_ratio\<close>\<close>

text \<open>
  An image is represented by its size \<open>(width, height)\<close>; pixel contents are not modelled.
  \<open>fit_crop\<close> is the box the source passes to \<^verbatim>\<open>img.crop\<close> (the trimming step); the
  final \<^verbatim>\<open>img.resize\<close> to the frame size is left to the imaging library.
  \<^verbatim>\<open>//\<close> on integers is floor division. The divisions that can raise are
  \<^verbatim>\<open>video_width / video_height\<close>, \<^verbatim>\<open>cropped_width / cropped_height\<close> and, in the
  second branch, \<^verbatim>\<open>cropped_width / target_ratio\<close>.
\<close>

definition fit_crop ::
  "int \<Rightarrow> int \<Rightarrow> int \<times> int \<Rightarrow> py_error + (int \<times> int \<times> int \<times> int)" where
  "fit_crop video_width video_height img_size =
     (case img_size of (cropped_width, cropped_height) \<Rightarrow>
        if video_height = 0 then Inl ZeroDivisionError
        else
          let target_ratio = (of_int video_width :: real) / of_int video_height
          in if cropped_height = 0 then Inl ZeroDivisionError
          else
            let current_ratio = (of_int cropped_width :: real) / of_int cropped_height
            in if current_ratio > target_ratio then
                 let new_width = py_int (of_int cropped_height * target_ratio);
                     crop_left = (cropped_width - new_width) div 2
                 in Inr (crop_left, 0, crop_left + new_width, cropped_height)
               else if target_ratio = 0 then Inl ZeroDivisionError
               else
                 let new_height = py_int (of_int cropped_width / target_ratio);
                     crop_top = (cropped_height - new_height) div 2
                 in Inr (0, crop_top, cropped_width, crop_top + new_height))"

text \<open>
  The size of the image that \<^verbatim>\<open>Image.crop(box)\<close> returns for a box
  \<open>(left, upper, right, lower)\<close>.
\<close>

definition box_size :: "int \<times> int \<times> int \<times> int \<Rightarrow> int \<times> int" where
  "box_size box = (case box of (left, upper, right, lower) \<Rightarrow> (right - left, lower - upper))"

text \<open>The size of the trimmed image, before the final resize.\<close>

definition trimmed_size :: "int \<Rightarrow> int \<Rightarrow> int \<times> int \<Rightarrow> py_error + (int \<times> int)" where
  "trimmed_size video_width video_height img_size =
     (case fit_crop video_width video_height img_size of
        Inl e \<Rightarrow> Inl e
      | Inr box \<Rightarrow> Inr (box_size box))"

subsection \<open>Timing: \<^verbatim>\<open>AudioAnalyzer._calculate_scene_timings\<close>\<close>

text \<open>
  The \<^verbatim>\<open>for\<close> loop over \<^verbatim>\<open>all_timings\<close>, with \<^verbatim>\<open>last_time\<close> as the loop state;
  the result is \<^verbatim>\<open>filtered_timings\<close> in the order of the appends.
\<close>

fun filter_timings :: "real \<Rightarrow> real \<Rightarrow> real list \<Rightarrow> real list" where
  "filter_timings min_interval last_time [] = []"
| "filter_timings min_interval last_time (time # rest) =
     (if time - last_time \<ge> min_interval
      then time # filter_timings min_interval time rest
      else filter_timings min_interval last_time rest)"

text \<open>
  \<^verbatim>\<open>min_interval\<close> is the configuration value \<^verbatim>\<open>min_scene_interval\<close> (default 0.5), a
  parameter here. \<^verbatim>\<open>sorted(set(beats + onsets))\<close> is \<open>sort (remdups (beats @ onsets))\<close>.
  The parameter \<^verbatim>\<open>duration\<close> is not used by the source.
\<close>

definition calculate_scene_timings :: "real \<Rightarrow> real list \<Rightarrow> real list \<Rightarrow> real \<Rightarrow> real list" where
  "calculate_scene_timings min_interval beats onsets duration =
     (let all_timings = sort (remdups (beats @ onsets));
          filtered_timings = filter_timings min_interval (- min_interval) all_timings
      in case filtered_timings of
           [] \<Rightarrow> 0 # filtered_timings
         | first # _ \<Rightarrow> if first > 1 / 10 then 0 # filtered_timings else filtered_timings)"

subsection \<open>Timing: \<^verbatim>\<open>AudioAnalyzer.distribute_scenes_to_timings\<close>\<close>

text \<open>The entries of the \<^verbatim>\<open>audio_analysis\<close> dictionary that the method reads.\<close>

record audio_analysis =
  duration :: real
  beats :: "real list"
  onsets :: "real list"
  scene_timings :: "real list"

text \<open>
  The warning the method prints when it falls back to the even split, with the two
  numbers it reports: \<^verbatim>\<open>len(timings)\<close> and \<^verbatim>\<open>num_scenes\<close>.
\<close>

datatype diagnostic = TimingsFewerThanScenes nat int

type_synonym allocation = "int \<times> real \<times> real"

text \<open>
  \<^verbatim>\<open>numpy.linspace(0, stop, num, dtype=int)\<close>, from NumPy's definition: a negative
  \<^verbatim>\<open>num\<close> raises \<^verbatim>\<open>ValueError\<close>; the samples are \<open>i * (stop / (num - 1))\<close> for
  \<open>i = 0, ..., num - 1\<close>, the last one replaced by \<^verbatim>\<open>stop\<close> itself when \<open>num > 1\<close>;
  with one sample the result is the start, \<open>[0]\<close>; the conversion to the integer type
  rounds down.
\<close>

definition linspace_int :: "int \<Rightarrow> int \<Rightarrow> py_error + int list" where
  "linspace_int stop num =
     (if num < 0 then Inl ValueError
      else if num = 1 then Inr [0]
      else
        let step = (of_int stop :: real) / of_int (num - 1)
        in Inr (map (\<lambda>i. if i = num - 1 then stop else \<lfloor>of_int i * step\<rfloor>) [0..num - 1]))"

text \<open>\<^verbatim>\<open>[timings[i] for i in selected_indices]\<close>.\<close>

fun select_timings :: "real list \<Rightarrow> int list \<Rightarrow> py_error + real list" where
  "select_timings timings [] = Inr []"
| "select_timings timings (i # rest) =
     (case py_get timings i of
        Inl e \<Rightarrow> Inl e
      | Inr t \<Rightarrow>
          (case select_timings timings rest of
             Inl e \<Rightarrow> Inl e
           | Inr ts \<Rightarrow> Inr (t # ts)))"

text \<open>
  The final \<^verbatim>\<open>for i in range(num_scenes)\<close> loop, as a recursion over the indices still to
  visit; the result is the list of the tuples appended.
\<close>

fun scene_entries :: "int \<Rightarrow> real \<Rightarrow> real list \<Rightarrow> int list \<Rightarrow> py_error + allocation list" where
  "scene_entries num_scenes dur selected_timings [] = Inr []"
| "scene_entries num_scenes dur selected_timings (i # rest) =
     (case py_get selected_timings i of
        Inl e \<Rightarrow> Inl e
      | Inr start_time \<Rightarrow>
          (case (if i < num_scenes - 1 then py_get selected_timings (i + 1) else Inr dur) of
             Inl e \<Rightarrow> Inl e
           | Inr end_time \<Rightarrow>
               (case scene_entries num_scenes dur selected_timings rest of
                  Inl e \<Rightarrow> Inl e
                | Inr result \<Rightarrow> Inr ((i, start_time, end_time - start_time) # result))))"

text \<open>
  The method returns the list of \<open>(scene_index, start_time, duration)\<close> tuples; the
  embedding pairs it with the diagnostics printed on the way. The strategy is the source's
  string: anything other than \<^verbatim>\<open>"evenly"\<close>, \<^verbatim>\<open>"beats"\<close> and \<^verbatim>\<open>"onsets"\<close> takes the
  \<^verbatim>\<open>else\<close> branch (\<^verbatim>\<open>"auto"\<close>). \<^verbatim>\<open>duration / num_scenes\<close> raises when
  \<^verbatim>\<open>num_scenes\<close> is zero.
\<close>

definition distribute_scenes_to_timings ::
  "int \<Rightarrow> audio_analysis \<Rightarrow> string \<Rightarrow> py_error + (diagnostic list \<times> allocation list)" where
  "distribute_scenes_to_timings num_scenes analysis strategy =
     (if strategy = ''evenly'' then
        (if num_scenes = 0 then Inl ZeroDivisionError
         else
           let scene_duration = duration analysis / of_int num_scenes
           in Inr ([], map (\<lambda>i. (i, of_int i * scene_duration, scene_duration))
                        [0..num_scenes - 1]))
      else
        let timings =
              (if strategy = ''beats'' then beats analysis
               else if strategy = ''onsets'' then onsets analysis
               else scene_timings analysis)
        in if int (length timings) < num_scenes then
             (if num_scenes = 0 then Inl ZeroDivisionError
              else
                let scene_duration = duration analysis / of_int num_scenes
                in Inr ([TimingsFewerThanScenes (length timings) num_scenes],
                        map (\<lambda>i. (i, of_int i * scene_duration, scene_duration))
                          [0..num_scenes - 1]))
           else
             (case linspace_int (int (length timings) - 1) num_scenes of
                Inl e \<Rightarrow> Inl e
              | Inr selected_indices \<Rightarrow>
                  (case select_timings timings selected_indices of
                     Inl e \<Rightarrow> Inl e
                   | Inr selected_timings \<Rightarrow>
                       (case scene_entries num_scenes (duration analysis) selected_timings
                               [0..num_scenes - 1] of
                          Inl e \<Rightarrow> Inl e
                        | Inr result \<Rightarrow> Inr ([], result)))))"

subsection \<open>Binary64 rounding, and the even split computed in binary64\<close>

text \<open>
  A Python float is an IEEE 754 binary64 number, and every floating-point operation
  returns the exact result rounded to the nearest binary64 number, ties to the one with an
  even significand. \<open>round_half_even\<close> rounds a real to the nearest integer, ties to even.
\<close>

definition round_half_even :: "real \<Rightarrow> int" where
  "round_half_even v =
     (let f = \<lfloor>v\<rfloor>; r = v - of_int f
      in if r < 1 / 2 then f else if 1 / 2 < r then f + 1 else if even f then f else f + 1)"

text \<open>
  \<open>binade v\<close> is the exponent \<open>e\<close> with \<open>2 ^ e \<le> v < 2 ^ (e + 1)\<close> of a positive
  \<open>v\<close>, found by halving or doubling.
\<close>

function binade :: "real \<Rightarrow> int" where
  "binade v =
     (if v \<le> 0 then 0
      else if 2 \<le> v then binade (v / 2) + 1
      else if v < 1 then binade (2 * v) - 1
      else 0)"
  by pat_completeness auto

termination binade
proof (relation "measure (\<lambda>v. nat \<bar>\<lfloor>log 2 v\<rfloor>\<bar>)")
  show "wf (measure (\<lambda>v. nat \<bar>\<lfloor>log 2 v\<rfloor>\<bar>))" by simp
next
  fix v :: real
  assume v: "\<not> v \<le> 0" "2 \<le> v"
  then have "1 \<le> log 2 v" by (simp add: le_log_iff)
  then have "1 \<le> \<lfloor>log 2 v\<rfloor>" by linarith
  moreover have "\<lfloor>log 2 (v / 2)\<rfloor> = \<lfloor>log 2 v\<rfloor> - 1"
    using v by (simp add: log_divide)
  ultimately show "(v / 2, v) \<in> measure (\<lambda>v. nat \<bar>\<lfloor>log 2 v\<rfloor>\<bar>)"
    by simp
next
  fix v :: real
  assume v: "\<not> v \<le> 0" "\<not> 2 \<le> v" "v < 1"
  then have "log 2 v < 0" by simp
  then have "\<lfloor>log 2 v\<rfloor> \<le> - 1" by linarith
  moreover have "\<lfloor>log 2 (2 * v)\<rfloor> = \<lfloor>log 2 v\<rfloor> + 1"
    using v by (simp add: log_mult)
  ultimately show "(2 * v, v) \<in> measure (\<lambda>v. nat \<bar>\<lfloor>log 2 v\<rfloor>\<bar>)"
    by simp
qed

declare binade.simps [simp del]

text \<open>
  \<open>fl64 v\<close> is the binary64 number nearest to \<open>v\<close>: 53 significant bits, with the fixed
  spacing \<open>2 ^ (- 1074)\<close> below \<open>2 ^ (- 1022)\<close> (subnormal numbers). Overflow to infinity
  is not represented; the theorems about \<open>fl64\<close> state the range of their inputs.
\<close>

definition fl64 :: "real \<Rightarrow> real" where
  "fl64 v =
     (if v = 0 then 0
      else
        let e = max (binade \<bar>v\<bar>) (- 1022) - 52
        in of_int (round_half_even (v / 2 powi e)) * 2 powi e)"

text \<open>
  \<^verbatim>\<open>distribute_scenes_to_timings\<close> once more, now with every floating-point operation
  rounded: an integer operand is converted to a float first (\<open>fl64 (of_int i)\<close>), then the
  quotient, product or difference is rounded. NumPy computes
  \<^verbatim>\<open>step = (stop - start) / (num - 1)\<close> and the samples \<^verbatim>\<open>arange(num) * step\<close> in
  binary64 before rounding down.
\<close>

definition linspace_int_fl64 :: "int \<Rightarrow> int \<Rightarrow> py_error + int list" where
  "linspace_int_fl64 stop num =
     (if num < 0 then Inl ValueError
      else if num = 1 then Inr [0]
      else
        let step = fl64 (fl64 (of_int stop) / fl64 (of_int (num - 1)))
        in Inr (map (\<lambda>i. if i = num - 1 then stop else \<lfloor>fl64 (fl64 (of_int i) * step)\<rfloor>)
                  [0..num - 1]))"

fun scene_entries_fl64 ::
  "int \<Rightarrow> real \<Rightarrow> real list \<Rightarrow> int list \<Rightarrow> py_error + allocation list" where
  "scene_entries_fl64 num_scenes dur selected_timings [] = Inr []"
| "scene_entries_fl64 num_scenes dur selected_timings (i # rest) =
     (case py_get selected_timings i of
        Inl e \<Rightarrow> Inl e
      | Inr start_time \<Rightarrow>
          (case (if i < num_scenes - 1 then py_get selected_timings (i + 1) else Inr dur) of
             Inl e \<Rightarrow> Inl e
           | Inr end_time \<Rightarrow>
               (case scene_entries_fl64 num_scenes dur selected_timings rest of
                  Inl e \<Rightarrow> Inl e
                | Inr result \<Rightarrow> Inr ((i, start_time, fl64 (end_time - start_time)) # result))))"

definition distribute_scenes_to_timings_fl64 ::
  "int \<Rightarrow> audio_analysis \<Rightarrow> string \<Rightarrow> py_error + (diagnostic list \<times> allocation list)" where
  "distribute_scenes_to_timings_fl64 num_scenes analysis strategy =
     (if strategy = ''evenly'' then
        (if num_scenes = 0 then Inl ZeroDivisionError
         else
           let scene_duration = fl64 (duration analysis / fl64 (of_int num_scenes))
           in Inr ([], map (\<lambda>i. (i, fl64 (fl64 (of_int i) * scene_duration), scene_duration))
                        [0..num_scenes - 1]))
      else
        let timings =
              (if strategy = ''beats'' then beats analysis
               else if strategy = ''onsets'' then onsets analysis
               else scene_timings analysis)
        in if int (length timings) < num_scenes then
             (if num_scenes = 0 then Inl ZeroDivisionError
              else
                let scene_duration = fl64 (duration analysis / fl64 (of_int num_scenes))
                in Inr ([TimingsFewerThanScenes (length timings) num_scenes],
                        map (\<lambda>i. (i, fl64 (fl64 (of_int i) * scene_duration), scene_duration))
                          [0..num_scenes - 1]))
           else
             (case linspace_int_fl64 (int (length timings) - 1) num_scenes of
                Inl e \<Rightarrow> Inl e
              | Inr selected_indices \<Rightarrow>
                  (case select_timings timings selected_indices of
                     Inl e \<Rightarrow> Inl e
                   | Inr selected_timings \<Rightarrow>
                       (case scene_entries_fl64 num_scenes (duration analysis) selected_timings
                               [0..num_scenes - 1] of
                          Inl e \<Rightarrow> Inl e
                        | Inr result \<Rightarrow> Inr ([], result)))))"

text \<open>
  Two names for the proofs. \<open>source_timings\<close> is the value of the variable
  \<^verbatim>\<open>timings\<close> after the strategy has been looked at (the method returns before it for
  \<^verbatim>\<open>"evenly"\<close>). \<open>sample_index len num i\<close> is the \<open>i\<close>-th index that
  \<open>linspace_int (len - 1) num\<close> delivers, written with the floor everywhere: lemma
  \<open>linspace_int_samples\<close> shows that the two agree.
\<close>

definition source_timings :: "audio_analysis \<Rightarrow> string \<Rightarrow> real list" where
  "source_timings analysis strategy =
     (if strategy = ''beats'' then beats analysis
      else if strategy = ''onsets'' then onsets analysis
      else scene_timings analysis)"

definition sample_index :: "nat \<Rightarrow> int \<Rightarrow> int \<Rightarrow> int" where
  "sample_index len num i =
     (if num = 1 then 0
      else \<lfloor>of_int i * ((of_int (int len - 1) :: real) / of_int (num - 1))\<rfloor>)"

text \<open>Projections of the returned tuples, and the sum of the durations.\<close>

definition scene_index :: "allocation \<Rightarrow> int" where
  "scene_index a = fst a"

definition start_time :: "allocation \<Rightarrow> real" where
  "start_time a = fst (snd a)"

definition scene_duration :: "allocation \<Rightarrow> real" where
  "scene_duration a = snd (snd a)"

definition total_of :: "allocation list \<Rightarrow> real" where
  "total_of result = sum_list (map scene_duration result)"

text \<open>
  The running total that \<^verbatim>\<open>VideoMaker._create_image_clips_with_timings\<close> keeps of the
  durations it is given (\<^verbatim>\<open>total_duration += duration\<close>), in binary64.
\<close>

fun float_sum :: "real \<Rightarrow> allocation list \<Rightarrow> real" where
  "float_sum total_duration [] = total_duration"
| "float_sum total_duration (a # rest) =
     float_sum (fl64 (total_duration + scene_duration a)) rest"

section \<open>The crop box\<close>

subsection \<open>One axis at a time\<close>

lemma calculate_crop_box_axes:
  "zoom \<noteq> 0 \<Longrightarrow>
   calculate_crop_box w h x y zoom =
     Inr (py_int (fst (crop_axis w x zoom)), py_int (fst (crop_axis h y zoom)),
          py_int (snd (crop_axis w x zoom)), py_int (snd (crop_axis h y zoom)))"
  by (simp add: calculate_crop_box_def crop_axis_def Let_def split: prod.splits if_splits)

lemma crop_extent_le:
  assumes "1 \<le> zoom" "0 < extent"
  shows "0 < (of_int extent :: real) / zoom" "(of_int extent :: real) / zoom \<le> of_int extent"
proof -
  have z: "0 < zoom" using assms by simp
  have e: "(0::real) < of_int extent" using assms by simp
  show "0 < (of_int extent :: real) / zoom" using z e by simp
  have "of_int extent * 1 \<le> (of_int extent :: real) * zoom"
    using assms(1) e by (intro mult_left_mono) simp_all
  then show "(of_int extent :: real) / zoom \<le> of_int extent"
    using z by (simp add: divide_le_eq)
qed

lemma crop_axis_low:
  assumes "1 \<le> zoom" "0 < extent" "of_int extent * c - of_int extent / zoom / 2 < 0"
  shows "crop_axis extent c zoom = (0, of_int extent / zoom)"
proof -
  define w where "w = (of_int extent :: real) / zoom"
  have b: "0 < w" "w \<le> of_int extent"
    using crop_extent_le[OF assms(1,2)] by (simp_all add: w_def)
  have l: "of_int extent * c - w / 2 < 0" using assms(3) by (simp add: w_def)
  have "crop_axis extent c zoom = (0, w)"
    unfolding crop_axis_def w_def[symmetric] using l b
    by (simp add: Let_def clamp_def)
  then show ?thesis by (simp add: w_def)
qed

lemma crop_axis_high:
  assumes "1 \<le> zoom" "0 < extent" "of_int extent * c + of_int extent / zoom / 2 > of_int extent"
  shows "crop_axis extent c zoom = (of_int extent - of_int extent / zoom, of_int extent)"
proof -
  define w where "w = (of_int extent :: real) / zoom"
  have b: "0 < w" "w \<le> of_int extent"
    using crop_extent_le[OF assms(1,2)] by (simp_all add: w_def)
  have h: "of_int extent * c + w / 2 > of_int extent" using assms(3) by (simp add: w_def)
  have nl: "\<not> of_int extent * c - w / 2 < 0"
    using h b by linarith
  have "crop_axis extent c zoom = (of_int extent - w, of_int extent)"
    unfolding crop_axis_def w_def[symmetric] using h nl b
    by (simp add: Let_def clamp_def)
  then show ?thesis by (simp add: w_def)
qed

lemma crop_axis_inside:
  assumes "1 \<le> zoom" "0 < extent" "\<not> of_int extent * c - of_int extent / zoom / 2 < 0"
     "\<not> of_int extent * c + of_int extent / zoom / 2 > of_int extent"
  shows "crop_axis extent c zoom =
     (of_int extent * c - of_int extent / zoom / 2, of_int extent * c + of_int extent / zoom / 2)"
proof -
  define w where "w = (of_int extent :: real) / zoom"
  have b: "0 < w" "w \<le> of_int extent"
    using crop_extent_le[OF assms(1,2)] by (simp_all add: w_def)
  have l: "\<not> of_int extent * c - w / 2 < 0" using assms(3) by (simp add: w_def)
  have h: "\<not> of_int extent * c + w / 2 > of_int extent" using assms(4) by (simp add: w_def)
  have "crop_axis extent c zoom = (of_int extent * c - w / 2, of_int extent * c + w / 2)"
    unfolding crop_axis_def w_def[symmetric] using l h b
    by (simp add: Let_def clamp_def)
  then show ?thesis by (simp add: w_def)
qed

lemma crop_axis_fits:
  assumes "1 \<le> zoom" "0 < extent"
  shows "0 \<le> fst (crop_axis extent c zoom)
     \<and> snd (crop_axis extent c zoom) = fst (crop_axis extent c zoom) + of_int extent / zoom
     \<and> snd (crop_axis extent c zoom) \<le> of_int extent"
proof -
  note b = crop_extent_le[OF assms]
  consider (low) "of_int extent * c - of_int extent / zoom / 2 < 0"
    | (high) "of_int extent * c + of_int extent / zoom / 2 > of_int extent"
    | (inside) "\<not> of_int extent * c - of_int extent / zoom / 2 < 0"
         "\<not> of_int extent * c + of_int extent / zoom / 2 > of_int extent"
    by blast
  then show ?thesis
  proof cases
    case low
    show ?thesis using b by (simp add: crop_axis_low[OF assms low])
  next
    case high
    show ?thesis using b by (simp add: crop_axis_high[OF assms high])
  next
    case inside
    show ?thesis using b inside by (simp add: crop_axis_inside[OF assms inside])
  qed
qed

lemma crop_axis_zoom_out:
  assumes "0 < zoom" "zoom < 1" "0 < extent"
  shows "crop_axis extent c zoom = (0, of_int extent)"
proof -
  define w where "w = (of_int extent :: real) / zoom"
  have e: "(0::real) < of_int extent" using assms by simp
  have "of_int extent * zoom < (of_int extent :: real) * 1"
    using assms e by (intro mult_strict_left_mono) simp_all
  then have b: "of_int extent < w"
    using assms(1) by (simp add: w_def less_divide_eq)
  show ?thesis
    unfolding crop_axis_def w_def[symmetric] using b e
    by (auto simp add: Let_def clamp_def)
qed

text \<open>Truncation of an interval of non-negative bounds.\<close>

lemma py_int_interval:
  assumes "0 \<le> lo" "hi = lo + d" "0 \<le> d" "hi \<le> of_int n"
  shows "0 \<le> py_int lo" "py_int lo \<le> py_int hi" "py_int hi \<le> n"
    "\<bar>of_int (py_int hi - py_int lo) - d\<bar> < 1" "1 \<le> d \<Longrightarrow> py_int lo < py_int hi"
proof -
  have hi0: "0 \<le> hi" using assms by simp
  show "0 \<le> py_int lo" using assms by (simp add: py_int_def)
  show "py_int lo \<le> py_int hi" using assms hi0 by (simp add: py_int_def floor_mono)
  show "py_int hi \<le> n" using assms hi0 by (simp add: py_int_def floor_le_iff) 
  show "\<bar>of_int (py_int hi - py_int lo) - d\<bar> < 1"
    using assms hi0 by (simp add: py_int_def) linarith
  show "py_int lo < py_int hi" if "1 \<le> d"
  proof -
    have "\<lfloor>lo\<rfloor> + 1 = \<lfloor>lo + 1\<rfloor>" by simp
    also have "\<dots> \<le> \<lfloor>hi\<rfloor>" using assms that by (intro floor_mono) simp
    finally show ?thesis using assms hi0 by (simp add: py_int_def)
  qed
qed

subsection \<open>Claims about \<^verbatim>\<open>_calculate_crop_box\<close>\<close>

text \<open>
  Claim C1, as stated, asks for \<open>left < right\<close> and \<open>top < bottom\<close> for every zoom of at
  least 1. On a 100 by 100 image with zoom 256 the crop is 0.390625 pixels wide; centred at
  \<open>x = y = 33/128\<close> both edges truncate to 25 and the box is empty.
\<close>

theorem crop_box_degenerate_counterexample:
  "calculate_crop_box 100 100 (33/128) (33/128) 256 = Inr (25, 25, 25, 25) \<and> \<not> (25::int) < 25"
  by (simp add: calculate_crop_box_def clamp_def py_int_def Let_def)

text \<open>
  Claim C1, amended: for positive image dimensions, zoom at least 1 and focus coordinates
  in \<open>[0, 1]\<close>, the method returns a box with \<open>0 \<le> left \<le> right \<le> img_width\<close> and
  \<open>0 \<le> top \<le> bottom \<le> img_height\<close>, whose width and height differ from
  \<open>img_width / zoom\<close> and \<open>img_height / zoom\<close> by less than two pixels (each edge is
  truncated to a whole pixel); the width (height) is strictly positive whenever
  \<open>img_width / zoom\<close> (\<open>img_height / zoom\<close>) is at least one pixel.
\<close>

theorem crop_box_inside_image:
  assumes "0 < img_width" "0 < img_height" "1 \<le> zoom"
    and "0 \<le> x" "x \<le> 1" "0 \<le> y" "y \<le> 1"
  shows "\<exists>left top right bottom.
           calculate_crop_box img_width img_height x y zoom = Inr (left, top, right, bottom)
         \<and> 0 \<le> left \<and> left \<le> right \<and> right \<le> img_width
         \<and> 0 \<le> top \<and> top \<le> bottom \<and> bottom \<le> img_height
         \<and> \<bar>of_int (right - left) - of_int img_width / zoom\<bar> < 2
         \<and> \<bar>of_int (bottom - top) - of_int img_height / zoom\<bar> < 2
         \<and> (1 \<le> of_int img_width / zoom \<longrightarrow> left < right)
         \<and> (1 \<le> of_int img_height / zoom \<longrightarrow> top < bottom)"
proof -
  have z: "zoom \<noteq> 0" using assms by simp
  note hx = crop_axis_fits[OF assms(3) assms(1), of x]
  note hy = crop_axis_fits[OF assms(3) assms(2), of y]
  have dx: "0 \<le> of_int img_width / zoom" and dy: "0 \<le> of_int img_height / zoom"
    using crop_extent_le(1)[OF assms(3) assms(1)] crop_extent_le(1)[OF assms(3) assms(2)]
    by simp_all
  note ix = py_int_interval[of "fst (crop_axis img_width x zoom)"
      "snd (crop_axis img_width x zoom)" "of_int img_width / zoom" img_width]
  note iy = py_int_interval[of "fst (crop_axis img_height y zoom)"
      "snd (crop_axis img_height y zoom)" "of_int img_height / zoom" img_height]
  have wx: "\<bar>of_int (py_int (snd (crop_axis img_width x zoom))
              - py_int (fst (crop_axis img_width x zoom))) - of_int img_width / zoom\<bar> < 2"
    using ix(4) hx dx by linarith
  have wy: "\<bar>of_int (py_int (snd (crop_axis img_height y zoom))
              - py_int (fst (crop_axis img_height y zoom))) - of_int img_height / zoom\<bar> < 2"
    using iy(4) hy dy by linarith
  show ?thesis
    unfolding calculate_crop_box_axes[OF z]
    using hx hy dx dy ix(1,2,3,5) iy(1,2,3,5) wx wy by simp
qed

theorem crop_box_inside_image_witness:
  "\<exists>left top right bottom.
      calculate_crop_box 1920 1080 (1/4) (3/4) 4 = Inr (left, top, right, bottom)
    \<and> 0 \<le> left \<and> left < right \<and> right \<le> 1920 \<and> 0 \<le> top \<and> top < bottom \<and> bottom \<le> 1080
    \<and> \<bar>real_of_int (right - left) - 480\<bar> < 2 \<and> \<bar>real_of_int (bottom - top) - 270\<bar> < 2"
  using crop_box_inside_image[of 1920 1080 4 "1/4" "3/4"] by fastforce



text \<open>
  Claim C5, as stated, asks for an error whenever zoom is below 1 or a dimension is not
  positive. Zoom 0.5 on a 100 by 100 image returns the whole image, and a zero-width image
  returns an (empty) box.
\<close>

theorem crop_box_unvalidated_counterexample:
  "calculate_crop_box 100 100 (1/2) (1/2) (1/2) = Inr (0, 0, 100, 100)
   \<and> calculate_crop_box 0 100 (1/2) (1/2) 2 = Inr (0, 25, 0, 75)"
  by (simp add: calculate_crop_box_def clamp_def py_int_def Let_def)

text \<open>
  Claim C5, amended: the method validates nothing. For every non-zero zoom it returns an
  ordinary box; its only failure is the division by zero at \<open>zoom = 0\<close>; and for
  \<open>0 < zoom < 1\<close> on an image of positive dimensions the box is the whole image.
\<close>

theorem crop_box_no_validation:
  "(zoom \<noteq> 0 \<longrightarrow> (\<exists>box. calculate_crop_box img_width img_height x y zoom = Inr box))
   \<and> calculate_crop_box img_width img_height x y 0 = Inl ZeroDivisionError
   \<and> (0 < zoom \<and> zoom < 1 \<and> 0 < img_width \<and> 0 < img_height \<longrightarrow>
        calculate_crop_box img_width img_height x y zoom = Inr (0, 0, img_width, img_height))"
proof -
  have "calculate_crop_box img_width img_height x y zoom = Inr (0, 0, img_width, img_height)"
    if "0 < zoom" "zoom < 1" "0 < img_width" "0 < img_height"
  proof -
    have z: "zoom \<noteq> 0" using that by simp
    show ?thesis
      unfolding calculate_crop_box_axes[OF z]
      using that by (simp add: crop_axis_zoom_out py_int_def)
  qed
  moreover have "zoom \<noteq> 0 \<Longrightarrow> \<exists>box. calculate_crop_box img_width img_height x y zoom = Inr box"
    by (simp add: calculate_crop_box_axes)
  moreover have "calculate_crop_box img_width img_height x y 0 = Inl ZeroDivisionError"
    by (simp add: calculate_crop_box_def)
  ultimately show ?thesis by blast
qed

theorem crop_box_no_validation_witness:
  "(\<exists>box. calculate_crop_box 640 480 (1/4) (3/4) (3/4) = Inr box)
   \<and> calculate_crop_box 640 480 (1/4) (3/4) 0 = Inl ZeroDivisionError
   \<and> calculate_crop_box 640 480 (1/4) (3/4) (3/4) = Inr (0, 0, 640, 480)"
  using crop_box_no_validation[of "3/4" 640 480 "1/4" "3/4"] by simp

section \<open>The aspect-ratio fit\<close>

lemma fit_crop_wide:
  assumes "0 < video_height" "0 < cropped_height"
    and "of_int cropped_width / of_int cropped_height > (of_int video_width :: real) / of_int video_height"
  shows "fit_crop video_width video_height (cropped_width, cropped_height) =
     Inr ((cropped_width - py_int (of_int cropped_height * (of_int video_width / of_int video_height))) div 2, 0,
          (cropped_width - py_int (of_int cropped_height * (of_int video_width / of_int video_height))) div 2
            + py_int (of_int cropped_height * (of_int video_width / of_int video_height)),
          cropped_height)"
  using assms by (simp add: fit_crop_def Let_def)

lemma fit_crop_tall:
  assumes "0 < video_width" "0 < video_height" "0 < cropped_height"
    and "\<not> of_int cropped_width / of_int cropped_height > (of_int video_width :: real) / of_int video_height"
  shows "fit_crop video_width video_height (cropped_width, cropped_height) =
     Inr (0, (cropped_height - py_int (of_int cropped_width / (of_int video_width / of_int video_height))) div 2,
          cropped_width,
          (cropped_height - py_int (of_int cropped_width / (of_int video_width / of_int video_height))) div 2
            + py_int (of_int cropped_width / (of_int video_width / of_int video_height)))"
  using assms by (simp add: fit_crop_def Let_def)

lemma centred_margin:
  fixes outer inner :: int
  assumes "0 \<le> inner" "inner \<le> outer"
  shows "0 \<le> (outer - inner) div 2" "(outer - inner) div 2 + inner \<le> outer"
  using assms by simp_all

lemma py_int_nonneg:
  assumes "0 \<le> v"
  shows "py_int v = \<lfloor>v\<rfloor>" "0 \<le> py_int v" "of_int (py_int v) \<le> v" "v < of_int (py_int v) + 1"
  using assms by (simp_all add: py_int_def)

text \<open>
  Claim C9, as stated, makes the fit idempotent on the crop box. The trimming step is not:
  for the 9:16 frame a 5 by 10 image is trimmed to 5 by 8, and a 5 by 8 image is trimmed
  again, to 4 by 8, because each trim truncates to whole pixels.
\<close>

theorem fit_trim_not_idempotent_counterexample:
  "trimmed_size 9 16 (5, 10) = Inr (5, 8) \<and> trimmed_size 9 16 (5, 8) = Inr (4, 8)
   \<and> (4::int, 8::int) \<noteq> (5, 8)"
  by (simp add: trimmed_size_def fit_crop_def box_size_def py_int_def Let_def)

text \<open>
  Claim C9, amended: the trimming step is not idempotent. For a positive target frame and
  a positive image size it returns a box inside the image that keeps one dimension whole
  and does not enlarge the other. When the image is too wide the new width \<open>w\<close> satisfies
  \<open>w \<le> height * target_ratio \<le> w + 1\<close>; otherwise the new height \<open>h\<close> satisfies
  \<open>h \<le> width / target_ratio \<le> h + 1\<close>.
\<close>

theorem fit_crop_trims:
  assumes "0 < video_width" "0 < video_height" "0 < cropped_width" "0 < cropped_height"
  shows "\<exists>l u r d.
      fit_crop video_width video_height (cropped_width, cropped_height) = Inr (l, u, r, d)
    \<and> 0 \<le> l \<and> l \<le> r \<and> r \<le> cropped_width \<and> 0 \<le> u \<and> u \<le> d \<and> d \<le> cropped_height
    \<and> (of_int cropped_width / of_int cropped_height > (of_int video_width :: real) / of_int video_height \<longrightarrow>
          u = 0 \<and> d = cropped_height
        \<and> of_int (r - l) \<le> of_int cropped_height * (of_int video_width / of_int video_height :: real)
        \<and> of_int cropped_height * (of_int video_width / of_int video_height :: real) \<le> of_int (r - l) + 1)
    \<and> (\<not> of_int cropped_width / of_int cropped_height > (of_int video_width :: real) / of_int video_height \<longrightarrow>
          l = 0 \<and> r = cropped_width
        \<and> of_int (d - u) \<le> of_int cropped_width / (of_int video_width / of_int video_height :: real)
        \<and> of_int cropped_width / (of_int video_width / of_int video_height :: real) \<le> of_int (d - u) + 1)"
proof -
  define target_ratio where "target_ratio = (of_int video_width :: real) / of_int video_height"
  define current_ratio where "current_ratio = (of_int cropped_width :: real) / of_int cropped_height"
  have tr: "0 < target_ratio" using assms by (simp add: target_ratio_def)
  have ch: "(0::real) < of_int cropped_height" and cw: "(0::real) < of_int cropped_width"
    using assms by simp_all
  have trim: "\<exists>l u r d.
      fit_crop video_width video_height (cropped_width, cropped_height) = Inr (l, u, r, d)
    \<and> 0 \<le> l \<and> l \<le> r \<and> r \<le> cropped_width \<and> 0 \<le> u \<and> u \<le> d \<and> d \<le> cropped_height
    \<and> (current_ratio > target_ratio \<longrightarrow>
          u = 0 \<and> d = cropped_height
        \<and> of_int (r - l) \<le> of_int cropped_height * target_ratio
        \<and> of_int cropped_height * target_ratio \<le> of_int (r - l) + 1)
    \<and> (\<not> current_ratio > target_ratio \<longrightarrow>
          l = 0 \<and> r = cropped_width
        \<and> of_int (d - u) \<le> of_int cropped_width / target_ratio
        \<and> of_int cropped_width / target_ratio \<le> of_int (d - u) + 1)"
  proof (cases "current_ratio > target_ratio")
    case True
    define new_width where "new_width = py_int (of_int cropped_height * target_ratio)"
    have v: "0 \<le> of_int cropped_height * target_ratio" using ch tr by simp
    note n = py_int_nonneg[OF v, folded new_width_def]
    have "of_int cropped_height * target_ratio < of_int cropped_width"
      using True ch by (simp add: current_ratio_def less_divide_eq mult.commute)
    then have "of_int new_width < (of_int cropped_width :: real)" using n(3) by linarith
    then have le: "new_width \<le> cropped_width" by simp
    note m = centred_margin[OF n(2) le]
    have "fit_crop video_width video_height (cropped_width, cropped_height) =
      Inr ((cropped_width - new_width) div 2, 0, (cropped_width - new_width) div 2 + new_width,
           cropped_height)"
      unfolding new_width_def target_ratio_def
      using True assms(2,4) by (intro fit_crop_wide) (simp_all add: current_ratio_def target_ratio_def)
    then show ?thesis using True n m assms(4) by simp
  next
    case False
    define new_height where "new_height = py_int (of_int cropped_width / target_ratio)"
    have v: "0 \<le> of_int cropped_width / target_ratio" using cw tr by simp
    note n = py_int_nonneg[OF v, folded new_height_def]
    have "of_int cropped_width / of_int cropped_height \<le> target_ratio"
      using False by (simp add: current_ratio_def)
    then have "of_int cropped_width \<le> target_ratio * of_int cropped_height"
      using ch by (simp add: divide_le_eq)
    then have "of_int cropped_width / target_ratio \<le> of_int cropped_height"
      using tr by (simp add: divide_le_eq mult.commute)
    then have "of_int new_height \<le> (of_int cropped_height :: real)" using n(3) by linarith
    then have le: "new_height \<le> cropped_height" by simp
    note m = centred_margin[OF n(2) le]
    have "fit_crop video_width video_height (cropped_width, cropped_height) =
      Inr (0, (cropped_height - new_height) div 2, cropped_width,
           (cropped_height - new_height) div 2 + new_height)"
      unfolding new_height_def target_ratio_def
      using False assms(1,2,4) by (intro fit_crop_tall) (simp_all add: current_ratio_def target_ratio_def)
    then show ?thesis using False n m assms(3) by simp
  qed
  then show ?thesis
    unfolding target_ratio_def current_ratio_def by simp
qed

theorem fit_crop_trims_witness:
  "(\<exists>l u r d. fit_crop 1080 1920 (1000, 1000) = Inr (l, u, r, d)
     \<and> 0 \<le> l \<and> l \<le> r \<and> r \<le> 1000 \<and> u = 0 \<and> d = 1000
     \<and> real_of_int (r - l) \<le> 1125 / 2 \<and> 1125 / 2 \<le> real_of_int (r - l) + 1)
   \<and> (\<exists>l u r d. fit_crop 1080 1920 (500, 2000) = Inr (l, u, r, d)
     \<and> l = 0 \<and> r = 500 \<and> 0 \<le> u \<and> u \<le> d \<and> d \<le> 2000
     \<and> real_of_int (d - u) \<le> 8000 / 9 \<and> 8000 / 9 \<le> real_of_int (d - u) + 1)"
proof -
  have wide: "\<exists>l u r d. fit_crop 1080 1920 (1000, 1000) = Inr (l, u, r, d)
     \<and> 0 \<le> l \<and> l \<le> r \<and> r \<le> 1000 \<and> u = 0 \<and> d = 1000
     \<and> real_of_int (r - l) \<le> 1125 / 2 \<and> 1125 / 2 \<le> real_of_int (r - l) + 1"
    using fit_crop_trims[of 1080 1920 1000 1000] by fastforce
  have tall: "\<exists>l u r d. fit_crop 1080 1920 (500, 2000) = Inr (l, u, r, d)
     \<and> l = 0 \<and> r = 500 \<and> 0 \<le> u \<and> u \<le> d \<and> d \<le> 2000
     \<and> real_of_int (d - u) \<le> 8000 / 9 \<and> 8000 / 9 \<le> real_of_int (d - u) + 1"
    using fit_crop_trims[of 1080 1920 500 2000] by fastforce
  show ?thesis using wide tall by blast
qed

section \<open>The timeline\<close>

text \<open>
  Every timestamp the greedy loop keeps is at least \<open>min_interval\<close> after the one kept
  before it; the first one kept is at least \<open>min_interval\<close> after the initial
  \<open>last_time = - min_interval\<close>, that is, not negative.
\<close>

lemma filter_timings_lower:
  "t \<in> set (filter_timings min_interval last_time xs) \<Longrightarrow> 0 < min_interval \<Longrightarrow>
     last_time + min_interval \<le> t"
proof (induction xs arbitrary: last_time)
  case Nil
  then show ?case by simp
next
  case (Cons time rest)
  show ?case
  proof (cases "time - last_time \<ge> min_interval")
    case True
    then have "t = time \<or> t \<in> set (filter_timings min_interval time rest)"
      using Cons.prems(1) by simp
    then show ?thesis
    proof
      assume "t = time" then show ?thesis using True by simp
    next
      assume "t \<in> set (filter_timings min_interval time rest)"
      from Cons.IH[OF this Cons.prems(2)] show ?thesis using True Cons.prems(2) by simp
    qed
  next
    case False
    then show ?thesis using Cons by simp
  qed
qed

lemma filter_timings_gaps:
  "0 < min_interval \<Longrightarrow>
     successively (\<lambda>a b. min_interval \<le> b - a) (filter_timings min_interval last_time xs)"
proof (induction xs arbitrary: last_time)
  case Nil
  then show ?case by simp
next
  case (Cons time rest)
  show ?case
  proof (cases "time - last_time \<ge> min_interval")
    case True
    have "\<And>t. t \<in> set (filter_timings min_interval time rest) \<Longrightarrow> min_interval \<le> t - time"
      using filter_timings_lower[OF _ Cons.prems, of _ time rest] by fastforce
    then show ?thesis
      using True Cons.IH[OF Cons.prems, of time]
      by (cases "filter_timings min_interval time rest") (simp_all add: successively_Cons)
  next
    case False
    then show ?thesis using Cons by simp
  qed
qed

lemma filter_timings_increasing:
  "0 < min_interval \<Longrightarrow> sorted_wrt (<) (filter_timings min_interval last_time xs)"
proof (induction xs arbitrary: last_time)
  case Nil
  then show ?case by simp
next
  case (Cons time rest)
  show ?case
  proof (cases "time - last_time \<ge> min_interval")
    case True
    have "\<And>t. t \<in> set (filter_timings min_interval time rest) \<Longrightarrow> time < t"
      using filter_timings_lower[OF _ Cons.prems, of _ time rest] Cons.prems by fastforce
    then show ?thesis
      using True Cons.IH[OF Cons.prems, of time] by simp
  next
    case False
    then show ?thesis using Cons by simp
  qed
qed

text \<open>
  Claim C4, as stated, asks that no two consecutive elements of the timeline are closer than
  \<open>min_interval\<close>. With \<open>min_interval = 0.5\<close> and a single early beat at 0.25 s (and one
  at 1 s), the loop keeps 0.25 and 1; since 0.25 exceeds 0.1, the method then inserts 0.0 in
  front, and the first two elements are 0.25 s apart.
\<close>

theorem scene_timings_gap_counterexample:
  "calculate_scene_timings (1/2) [1/4, 1] [] 10 = [0, 1/4, 1] \<and> \<not> (1/2 :: real) \<le> 1/4 - 0"
  by (simp add: calculate_scene_timings_def)

text \<open>
  Claim C4, amended: for every pair of timestamp lists and every \<open>min_interval > 0\<close>, the
  timeline is not empty and strictly increasing, its first element lies between 0 and 0.1,
  and consecutive elements are at least \<open>min_interval\<close> apart, except that the first two
  may be closer when the first is an inserted 0.0, in which case the second is larger than
  0.1.
\<close>

theorem scene_timings_shape:
  assumes "0 < min_interval"
    and "timeline = calculate_scene_timings min_interval beat_times onset_times dur"
  shows "timeline \<noteq> [] \<and> sorted_wrt (<) timeline \<and> 0 \<le> hd timeline \<and> hd timeline \<le> 1 / 10
       \<and> successively (\<lambda>a b. min_interval \<le> b - a) (tl timeline)
       \<and> (2 \<le> length timeline \<longrightarrow>
            min_interval \<le> timeline ! 1 - timeline ! 0
          \<or> (timeline ! 0 = 0 \<and> 1 / 10 < timeline ! 1))"
proof -
  define filtered where
    "filtered = filter_timings min_interval (- min_interval) (sort (remdups (beat_times @ onset_times)))"
  have inc: "sorted_wrt (<) filtered"
    unfolding filtered_def by (rule filter_timings_increasing[OF assms(1)])
  have gaps: "successively (\<lambda>a b. min_interval \<le> b - a) filtered"
    unfolding filtered_def by (rule filter_timings_gaps[OF assms(1)])
  have low: "\<And>t. t \<in> set filtered \<Longrightarrow> 0 \<le> t"
    unfolding filtered_def using filter_timings_lower[OF _ assms(1), of _ "- min_interval"] by fastforce
  have T: "timeline = (case filtered of [] \<Rightarrow> 0 # filtered
      | first # _ \<Rightarrow> if first > 1 / 10 then 0 # filtered else filtered)"
    unfolding assms(2) filtered_def calculate_scene_timings_def Let_def ..
  show ?thesis
  proof (cases filtered)
    case Nil
    then show ?thesis using T by simp
  next
    case (Cons first rest)
    show ?thesis
    proof (cases "first > 1 / 10")
      case True
      then have "timeline = 0 # first # rest" using T Cons by simp
      moreover have "\<forall>t \<in> set (first # rest). 0 < t"
        using inc True Cons by auto
      ultimately show ?thesis using inc gaps True Cons by simp
    next
      case False
      then have tl: "timeline = first # rest" using T Cons by simp
      have "0 \<le> first" using low Cons by simp
      moreover have "successively (\<lambda>a b. min_interval \<le> b - a) rest"
        using gaps Cons by (cases rest) simp_all
      moreover have "2 \<le> length (first # rest) \<longrightarrow> min_interval \<le> (first # rest) ! 1 - first"
        using gaps Cons by (cases rest) simp_all
      ultimately show ?thesis using inc False Cons tl by simp
    qed
  qed
qed

theorem scene_timings_shape_witness:
  "calculate_scene_timings (1/2) [1/4, 1, 5/4, 2] [1, 3/2, 3] 10 = [0, 1/4, 1, 3/2, 2, 3]
   \<and> sorted_wrt (<) [0, 1/4, 1, 3/2, 2, 3 :: real]
   \<and> successively (\<lambda>a b. 1/2 \<le> b - a) [1/4, 1, 3/2, 2, 3 :: real]
   \<and> (0::real) = 0 \<and> (1/10 :: real) < 1/4"
proof -
  have run: "[0, 1/4, 1, 3/2, 2, 3] = calculate_scene_timings (1/2) [1/4, 1, 5/4, 2] [1, 3/2, 3] 10"
    by (simp add: calculate_scene_timings_def)
  show ?thesis
    using scene_timings_shape[OF _ run] run[symmetric] by simp
qed

section \<open>The scene distributor\<close>

subsection \<open>Reads that stay in range, and the sampled indices\<close>

lemma py_get_in_range:
  "0 \<le> i \<Longrightarrow> i < int (length xs) \<Longrightarrow> py_get xs i = Inr (xs ! nat i)"
  by (simp add: py_get_def)

lemma select_timings_in_range:
  "\<forall>i \<in> set idxs. 0 \<le> i \<and> i < int (length timings) \<Longrightarrow>
     select_timings timings idxs = Inr (map (\<lambda>i. timings ! nat i) idxs)"
  by (induction idxs) (simp_all add: py_get_in_range)

lemma scene_entries_in_range:
  "int (length sel) = n \<Longrightarrow> \<forall>i \<in> set todo. 0 \<le> i \<and> i < n \<Longrightarrow>
     scene_entries n dur sel todo =
       Inr (map (\<lambda>i. (i, sel ! nat i, (if i < n - 1 then sel ! nat (i + 1) else dur) - sel ! nat i))
              todo)"
proof (induction todo)
  case Nil
  then show ?case by simp
next
  case (Cons i rest)
  have i: "0 \<le> i" "i < int (length sel)" using Cons.prems by simp_all
  have nxt: "i < n - 1 \<Longrightarrow> py_get sel (i + 1) = Inr (sel ! nat (i + 1))"
    using i Cons.prems(1) by (intro py_get_in_range) simp_all
  show ?case
    using Cons i nxt by (simp add: py_get_in_range)
qed

lemma linspace_int_samples:
  assumes "0 \<le> num"
  shows "linspace_int (int len - 1) num = Inr (map (sample_index len num) [0..num - 1])"
proof (cases "num = 1")
  case True
  then show ?thesis by (simp add: linspace_int_def sample_index_def)
next
  case False
  have "(if i = num - 1 then int len - 1
         else \<lfloor>of_int i * ((of_int (int len - 1) :: real) / of_int (num - 1))\<rfloor>)
        = sample_index len num i" for i
  proof (cases "i = num - 1")
    case True
    have "of_int (num - 1) * ((of_int (int len - 1) :: real) / of_int (num - 1)) = of_int (int len - 1)"
      using False by simp
    then have "\<lfloor>of_int (num - 1) * ((of_int (int len - 1) :: real) / of_int (num - 1))\<rfloor> = int len - 1"
      by (simp only: floor_of_int)
    then show ?thesis using True False by (simp add: sample_index_def)
  next
    case f: False
    then show ?thesis using False by (simp add: sample_index_def)
  qed
  then have eq: "(\<lambda>i. if i = num - 1 then int len - 1
         else \<lfloor>of_int i * ((of_int (int len - 1) :: real) / of_int (num - 1))\<rfloor>)
        = sample_index len num" by (intro ext)
  have "\<not> num < 0" using assms by simp
  then show ?thesis
    unfolding linspace_int_def Let_def eq using False by (simp only: if_False)
qed

lemma sample_index_first: "sample_index len num 0 = 0"
  by (simp add: sample_index_def)

lemma sample_index_last: "2 \<le> num \<Longrightarrow> sample_index len num (num - 1) = int len - 1"
proof -
  assume n: "2 \<le> num"
  have "of_int (num - 1) * ((of_int (int len - 1) :: real) / of_int (num - 1)) = of_int (int len - 1)"
    using n by simp
  then have "\<lfloor>of_int (num - 1) * ((of_int (int len - 1) :: real) / of_int (num - 1))\<rfloor> = int len - 1"
    by (simp only: floor_of_int)
  then show ?thesis using n by (simp add: sample_index_def)
qed

lemma sample_step:
  assumes "2 \<le> num" "num \<le> int len"
  shows "1 \<le> (of_int (int len - 1) :: real) / of_int (num - 1)"
  using assms by (simp add: le_divide_eq)

lemma sample_index_strict_mono:
  assumes "1 \<le> num" "num \<le> int len" "0 \<le> i" "i < j" "j \<le> num - 1"
  shows "sample_index len num i < sample_index len num j"
proof -
  have n: "2 \<le> num" using assms by simp
  define step where "step = (of_int (int len - 1) :: real) / of_int (num - 1)"
  have s: "1 \<le> step" unfolding step_def by (rule sample_step[OF n assms(2)])
  have "of_int i + (1::real) \<le> of_int j" using assms(4) by linarith
  then have "(of_int i + 1) * step \<le> of_int j * step"
    using s by (intro mult_right_mono) simp_all
  then have "of_int i * step + 1 \<le> of_int j * step"
    using s by (simp add: algebra_simps)
  then have "\<lfloor>of_int i * step + 1\<rfloor> \<le> \<lfloor>of_int j * step\<rfloor>" by (rule floor_mono)
  then have "\<lfloor>of_int i * step\<rfloor> < \<lfloor>of_int j * step\<rfloor>" by simp
  then show ?thesis using n by (simp add: sample_index_def step_def)
qed

lemma sample_index_range:
  assumes "1 \<le> num" "num \<le> int len" "0 \<le> i" "i \<le> num - 1"
  shows "0 \<le> sample_index len num i" "sample_index len num i < int len"
proof -
  show "0 \<le> sample_index len num i"
  proof (cases "i = 0")
    case True then show ?thesis by (simp add: sample_index_first)
  next
    case False
    then have "sample_index len num 0 < sample_index len num i"
      using assms by (intro sample_index_strict_mono) simp_all
    then show ?thesis by (simp add: sample_index_first)
  qed
  show "sample_index len num i < int len"
  proof (cases "num = 1")
    case True then show ?thesis using assms by (simp add: sample_index_def)
  next
    case False
    then have n: "2 \<le> num" using assms by simp
    show ?thesis
    proof (cases "i = num - 1")
      case True then show ?thesis using sample_index_last[OF n, of len] by simp
    next
      case False
      then have "sample_index len num i < sample_index len num (num - 1)"
        using assms by (intro sample_index_strict_mono) simp_all
      then show ?thesis using sample_index_last[OF n, of len] by simp
    qed
  qed
qed

subsection \<open>The three ways through the method\<close>

lemma distribute_evenly:
  "num_scenes \<noteq> 0 \<Longrightarrow>
    distribute_scenes_to_timings num_scenes analysis ''evenly'' =
      Inr ([], map (\<lambda>i. (i, of_int i * (duration analysis / of_int num_scenes),
                         duration analysis / of_int num_scenes)) [0..num_scenes - 1])"
  by (simp add: distribute_scenes_to_timings_def Let_def)

lemma distribute_fallback:
  assumes "strategy \<noteq> ''evenly''"
    and "int (length (source_timings analysis strategy)) < num_scenes"
  shows "distribute_scenes_to_timings num_scenes analysis strategy =
      Inr ([TimingsFewerThanScenes (length (source_timings analysis strategy)) num_scenes],
           map (\<lambda>i. (i, of_int i * (duration analysis / of_int num_scenes),
                         duration analysis / of_int num_scenes)) [0..num_scenes - 1])"
proof -
  have "num_scenes \<noteq> 0" using assms(2) by auto
  then show ?thesis
    using assms unfolding distribute_scenes_to_timings_def source_timings_def Let_def
    by (simp only: if_False if_True)
qed

lemma selected_timings_nth:
  assumes "0 \<le> i" "i \<le> n - 1"
  shows "map f (map g [0..n - 1]) ! nat i = f (g i)"
  using assms by simp

lemma distribute_selected:
  assumes "strategy \<noteq> ''evenly''" "1 \<le> num_scenes"
    and "num_scenes \<le> int (length (source_timings analysis strategy))"
  shows "distribute_scenes_to_timings num_scenes analysis strategy =
      Inr ([], map (\<lambda>i. (i,
          source_timings analysis strategy
            ! nat (sample_index (length (source_timings analysis strategy)) num_scenes i),
          (if i < num_scenes - 1
           then source_timings analysis strategy
            ! nat (sample_index (length (source_timings analysis strategy)) num_scenes (i + 1))
           else duration analysis)
          - source_timings analysis strategy
            ! nat (sample_index (length (source_timings analysis strategy)) num_scenes i)))
        [0..num_scenes - 1])"
proof -
  define timings where "timings = source_timings analysis strategy"
  define idx where "idx = sample_index (length timings) num_scenes"
  define sel where "sel = map (\<lambda>i. timings ! nat i) (map idx [0..num_scenes - 1])"
  have len: "num_scenes \<le> int (length timings)" using assms(3) by (simp add: timings_def)
  have lin: "linspace_int (int (length timings) - 1) num_scenes = Inr (map idx [0..num_scenes - 1])"
    unfolding idx_def using assms(2) by (intro linspace_int_samples) simp
  have rng: "\<forall>i \<in> set (map idx [0..num_scenes - 1]). 0 \<le> i \<and> i < int (length timings)"
    unfolding idx_def using sample_index_range[OF assms(2) len] by auto
  have pick: "select_timings timings (map idx [0..num_scenes - 1]) = Inr sel"
    unfolding sel_def by (rule select_timings_in_range[OF rng])
  have sel_len: "int (length sel) = num_scenes" using assms(2) by (simp add: sel_def)
  have todo: "\<forall>i \<in> set [0..num_scenes - 1]. 0 \<le> i \<and> i < num_scenes" by simp
  have entries: "scene_entries num_scenes (duration analysis) sel [0..num_scenes - 1] =
     Inr (map (\<lambda>i. (i, sel ! nat i,
            (if i < num_scenes - 1 then sel ! nat (i + 1) else duration analysis) - sel ! nat i))
          [0..num_scenes - 1])"
    by (rule scene_entries_in_range[OF sel_len todo])
  have nth: "sel ! nat i = timings ! nat (idx i)" if "0 \<le> i" "i \<le> num_scenes - 1" for i
    unfolding sel_def using that by (rule selected_timings_nth)
  have same: "map (\<lambda>i. (i, sel ! nat i,
            (if i < num_scenes - 1 then sel ! nat (i + 1) else duration analysis) - sel ! nat i))
          [0..num_scenes - 1]
     = map (\<lambda>i. (i, timings ! nat (idx i),
            (if i < num_scenes - 1 then timings ! nat (idx (i + 1)) else duration analysis)
              - timings ! nat (idx i)))
          [0..num_scenes - 1]"
    by (rule map_cong) (auto simp add: nth)
  have "distribute_scenes_to_timings num_scenes analysis strategy =
     Inr ([], map (\<lambda>i. (i, sel ! nat i,
            (if i < num_scenes - 1 then sel ! nat (i + 1) else duration analysis) - sel ! nat i))
          [0..num_scenes - 1])"
    unfolding distribute_scenes_to_timings_def
    using assms(1) len lin pick entries
    by (simp add: Let_def timings_def source_timings_def)
  then show ?thesis
    unfolding same by (simp add: timings_def idx_def)
qed

text \<open>Sums over the scene indices.\<close>

lemma sum_list_constant_upto:
  "0 \<le> n \<Longrightarrow> sum_list (map (\<lambda>i. c) [0..n - 1]) = of_int n * (c :: real)"
  by (simp add: sum_list_triv)

lemma sum_list_telescope:
  fixes f :: "int \<Rightarrow> real"
  shows "k \<le> n - 1 \<Longrightarrow>
    sum_list (map (\<lambda>i. (if i < n - 1 then f (i + 1) else d) - f i) [k..n - 1]) = d - f k"
proof (induction "nat (n - 1 - k)" arbitrary: k)
  case 0
  then have "k = n - 1" by simp
  then show ?case by simp
next
  case (Suc m)
  then have k: "k < n - 1" by simp
  have "m = nat (n - 1 - (k + 1))" using Suc.hyps(2) by simp
  from Suc.hyps(1)[OF this] k
  have "sum_list (map (\<lambda>i. (if i < n - 1 then f (i + 1) else d) - f i) [k + 1..n - 1])
        = d - f (k + 1)" by simp
  moreover have "[k..n - 1] = k # [k + 1..n - 1]" using k by (intro upto_rec1) simp
  ultimately show ?case using k by simp
qed

lemma total_of_map:
  "total_of (map (\<lambda>i. (i, s i, d i)) xs) = sum_list (map d xs)"
  by (simp add: total_of_def scene_duration_def comp_def)

lemma scene_index_map: "map scene_index (map (\<lambda>i. (i, s i, d i)) xs) = xs"
  by (simp add: scene_index_def comp_def)

lemma start_time_map: "map start_time (map (\<lambda>i. (i, s i, d i)) xs) = map s xs"
  by (simp add: start_time_def comp_def)

lemma hd_map_upto: "1 \<le> n \<Longrightarrow> hd (map f [0..n - 1]) = f 0"
  by (simp add: upto_rec1[of 0 "n - 1"])

lemma even_split_total:
  assumes "1 \<le> num_scenes"
  shows "total_of (map (\<lambda>i. (i, of_int i * (dur / of_int num_scenes), dur / of_int num_scenes))
            [0..num_scenes - 1]) = dur"
proof -
  have "total_of (map (\<lambda>i. (i, of_int i * (dur / of_int num_scenes), dur / of_int num_scenes))
            [0..num_scenes - 1]) = sum_list (map (\<lambda>i. dur / of_int num_scenes) [0..num_scenes - 1])"
    by (rule total_of_map)
  also have "\<dots> = of_int num_scenes * (dur / of_int num_scenes)"
    using assms by (intro sum_list_constant_upto) simp
  also have "\<dots> = dur" using assms by simp
  finally show ?thesis .
qed

subsection \<open>Binary64 rounding\<close>

text \<open>
  The rounding error of \<open>fl64\<close> is at most half a unit in the last place, which is at
  most \<open>2 ^ (- 53)\<close> times the value in the normal range; integers below \<open>2 ^ 53\<close> are
  binary64 numbers.
\<close>

lemma binade_bounds:
  "0 < v \<Longrightarrow> 2 powi binade v \<le> v \<and> v < 2 powi (binade v + 1)"
proof (induction v rule: binade.induct)
  case (1 v)
  consider (big) "2 \<le> v" | (small) "v < 1" | (unit) "1 \<le> v" "v < 2" by linarith
  then show ?case
  proof cases
    case big
    then have b: "binade v = binade (v / 2) + 1" using "1.prems" by (subst binade.simps) simp
    have ih: "2 powi binade (v / 2) \<le> v / 2 \<and> v / 2 < 2 powi (binade (v / 2) + 1)"
      using "1.IH"(1) "1.prems" big by simp
    have "(2::real) powi (binade (v / 2) + 1) = 2 powi binade (v / 2) * 2"
      by (simp add: power_int_add)
    moreover have "(2::real) powi (binade (v / 2) + 1 + 1) = 2 powi (binade (v / 2) + 1) * 2"
      by (simp add: power_int_add)
    ultimately show ?thesis using ih unfolding b by linarith
  next
    case small
    then have b: "binade v = binade (2 * v) - 1" using "1.prems" by (subst binade.simps) simp
    have ih: "2 powi binade (2 * v) \<le> 2 * v \<and> 2 * v < 2 powi (binade (2 * v) + 1)"
      using "1.IH"(2) "1.prems" small by simp
    have "(2::real) powi binade (2 * v) = 2 powi (binade (2 * v) - 1) * 2"
      using power_int_add[of "2::real" "binade (2 * v) - 1" 1] by simp
    moreover have "(2::real) powi (binade (2 * v) + 1) = 2 powi (binade (2 * v) - 1 + 1) * 2"
      by (simp add: power_int_add)
    ultimately show ?thesis using ih unfolding b by linarith
  next
    case unit
    then have "binade v = 0" by (subst binade.simps) simp
    then show ?thesis using unit by simp
  qed
qed

lemma round_half_even_error: "\<bar>of_int (round_half_even v) - v\<bar> \<le> 1 / 2"
  unfolding round_half_even_def Let_def by (auto simp: abs_le_iff)

lemma round_half_even_of_int: "round_half_even (of_int n) = n"
  by (simp add: round_half_even_def)

lemma fl64_error:
  assumes "2 powi (- 1022) \<le> \<bar>v\<bar>"
  shows "\<bar>fl64 v - v\<bar> \<le> \<bar>v\<bar> / 2 ^ 53"
proof -
  have pos: "0 < \<bar>v\<bar>"
    using assms zero_less_power_int[of "2::real" "- 1022"] by linarith
  then have v0: "v \<noteq> 0" by simp
  define k where "k = binade \<bar>v\<bar>"
  have kb: "2 powi k \<le> \<bar>v\<bar>" "\<bar>v\<bar> < 2 powi (k + 1)"
    using binade_bounds[OF pos] by (simp_all add: k_def)
  have "- 1022 \<le> k"
  proof (rule ccontr)
    assume "\<not> - 1022 \<le> k"
    then have "k + 1 \<le> - 1022" by simp
    then have "(2::real) powi (k + 1) \<le> 2 powi (- 1022)"
      by (intro power_int_increasing) simp_all
    then show False using kb(2) assms by linarith
  qed
  then have e: "max k (- 1022) - 52 = k - 52" by simp
  define u where "u = (2::real) powi (k - 52)"
  have u: "0 < u" by (simp add: u_def)
  have fl: "fl64 v = of_int (round_half_even (v / u)) * u"
    using v0 e by (simp add: fl64_def Let_def k_def[symmetric] u_def)
  have "fl64 v - v = (of_int (round_half_even (v / u)) - v / u) * u"
    using u by (simp add: fl algebra_simps)
  then have "\<bar>fl64 v - v\<bar> = \<bar>of_int (round_half_even (v / u)) - v / u\<bar> * u"
    using u by (simp add: abs_mult)
  also have "\<dots> \<le> 1 / 2 * u"
    using u round_half_even_error[of "v / u"] by (intro mult_right_mono) simp_all
  finally have err: "\<bar>fl64 v - v\<bar> \<le> u / 2" by simp
  have "2 powi k = u * 2 ^ 52"
    using power_int_add[of "2::real" "k - 52" 52] by (simp add: u_def)
  then have "u * 2 ^ 52 \<le> \<bar>v\<bar>" using kb(1) by simp
  then have "u / 2 \<le> \<bar>v\<bar> / 2 ^ 53" by (simp add: field_simps)
  then show ?thesis using err by linarith
qed

lemma fl64_of_int:
  assumes "\<bar>n\<bar> < 2 ^ 53"
  shows "fl64 (of_int n) = of_int n"
proof (cases "n = 0")
  case True
  then show ?thesis by (simp add: fl64_def)
next
  case False
  define k where "k = binade \<bar>of_int n\<bar>"
  have pos: "0 < \<bar>real_of_int n\<bar>" using False by simp
  have kb: "2 powi k \<le> \<bar>real_of_int n\<bar>" "\<bar>real_of_int n\<bar> < 2 powi (k + 1)"
    using binade_bounds[OF pos] by (simp_all add: k_def)
  have "1 \<le> \<bar>n\<bar>" using False by simp
  then have "1 \<le> real_of_int \<bar>n\<bar>" by simp
  then have one: "1 \<le> \<bar>real_of_int n\<bar>" by simp
  have k0: "0 \<le> k"
  proof (rule ccontr)
    assume "\<not> 0 \<le> k"
    then have "k + 1 \<le> 0" by simp
    then have "(2::real) powi (k + 1) \<le> 2 powi 0"
      by (intro power_int_increasing) simp_all
    then show False using kb(2) one by simp
  qed
  have "real_of_int \<bar>n\<bar> < 2 ^ 53" using assms by simp
  then have big: "\<bar>real_of_int n\<bar> < 2 ^ 53" by simp
  have k52: "k \<le> 52"
  proof (rule ccontr)
    assume "\<not> k \<le> 52"
    then have "53 \<le> k" by simp
    then have "(2::real) powi 53 \<le> 2 powi k"
      by (intro power_int_increasing) simp_all
    then show False using kb(1) big by simp
  qed
  define m where "m = nat (52 - k)"
  have e: "max k (- 1022) - 52 = - int m" using k0 k52 by (simp add: m_def)
  have u: "(2::real) powi (- int m) = 1 / 2 ^ m"
    by (simp add: power_int_minus field_simps)
  have "real_of_int n / (1 / 2 ^ m) = of_int (n * 2 ^ m)" by simp
  then have r: "round_half_even (real_of_int n / (1 / 2 ^ m)) = n * 2 ^ m"
    by (simp only: round_half_even_of_int)
  have "fl64 (real_of_int n)
      = of_int (round_half_even (real_of_int n / 2 powi (- int m))) * 2 powi (- int m)"
    using False e by (simp add: fl64_def Let_def k_def[symmetric])
  also have "\<dots> = of_int (n * 2 ^ m) * (1 / 2 ^ m)"
    unfolding u r ..
  also have "\<dots> = real_of_int n" by simp
  finally show ?thesis .
qed

lemma fl64_zero: "fl64 0 = 0"
  by (simp add: fl64_def)

lemma fl64_scene_index:
  assumes "num_scenes < 2 ^ 53" "i \<in> set [0..num_scenes - 1]"
  shows "fl64 (of_int i) = of_int i"
proof -
  have "0 \<le> i" "i < 2 ^ 53" using assms by simp_all
  then have "\<bar>i\<bar> < 2 ^ 53" by simp
  then show ?thesis by (rule fl64_of_int)
qed

lemma even_split_fl64:
  assumes "1 \<le> num_scenes" "num_scenes < 2 ^ 53"
  shows "map (\<lambda>i. (i, fl64 (fl64 (of_int i) * fl64 (dur / fl64 (of_int num_scenes))),
                    fl64 (dur / fl64 (of_int num_scenes)))) [0..num_scenes - 1]
       = map (\<lambda>i. (i, fl64 (of_int i * fl64 (dur / of_int num_scenes)),
                    fl64 (dur / of_int num_scenes))) [0..num_scenes - 1]"
proof -
  have "\<bar>num_scenes\<bar> < 2 ^ 53" using assms by simp
  then have n: "fl64 (of_int num_scenes) = of_int num_scenes" by (rule fl64_of_int)
  show ?thesis
    unfolding n by (rule map_cong) (simp_all add: fl64_scene_index[OF assms(2)])
qed

lemma distribute_fl64_evenly:
  assumes "1 \<le> num_scenes" "num_scenes < 2 ^ 53"
  shows "distribute_scenes_to_timings_fl64 num_scenes analysis ''evenly'' =
      Inr ([], map (\<lambda>i. (i, fl64 (of_int i * fl64 (duration analysis / of_int num_scenes)),
                         fl64 (duration analysis / of_int num_scenes))) [0..num_scenes - 1])"
proof -
  have "num_scenes \<noteq> 0" using assms(1) by simp
  then show ?thesis
    unfolding distribute_scenes_to_timings_fl64_def Let_def even_split_fl64[OF assms]
    by simp
qed

lemma distribute_fl64_fallback:
  assumes "strategy \<noteq> ''evenly''"
    and "int (length (source_timings analysis strategy)) < num_scenes"
    and "num_scenes < 2 ^ 53"
  shows "distribute_scenes_to_timings_fl64 num_scenes analysis strategy =
      Inr ([TimingsFewerThanScenes (length (source_timings analysis strategy)) num_scenes],
           map (\<lambda>i. (i, fl64 (of_int i * fl64 (duration analysis / of_int num_scenes)),
                         fl64 (duration analysis / of_int num_scenes))) [0..num_scenes - 1])"
proof -
  have n: "1 \<le> num_scenes" using assms(2) by linarith
  then have "num_scenes \<noteq> 0" by simp
  then show ?thesis
    using assms(1,2)
    unfolding distribute_scenes_to_timings_fl64_def source_timings_def Let_def
      even_split_fl64[OF n assms(3)]
    by (simp only: if_False if_True)
qed

lemma even_split_fl64_total:
  assumes "1 \<le> num_scenes" "2 powi (- 1022) \<le> dur / of_int num_scenes"
  shows "\<bar>total_of (map (\<lambda>i. (i, fl64 (of_int i * fl64 (dur / of_int num_scenes)),
                    fl64 (dur / of_int num_scenes))) [0..num_scenes - 1]) - dur\<bar> \<le> dur / 2 ^ 53"
proof -
  define q where "q = dur / real_of_int num_scenes"
  have n: "(0::real) < of_int num_scenes" using assms(1) by simp
  have qpos: "0 < q"
    using assms(2) zero_less_power_int[of "2::real" "- 1022"] unfolding q_def by linarith
  have d: "dur = of_int num_scenes * q" using n by (simp add: q_def)
  have "2 powi (- 1022) \<le> q" using assms(2) unfolding q_def .
  then have "2 powi (- 1022) \<le> \<bar>q\<bar>" by (simp only: abs_of_pos[OF qpos])
  then have err: "\<bar>fl64 q - q\<bar> \<le> \<bar>q\<bar> / 2 ^ 53" by (rule fl64_error)
  have "total_of (map (\<lambda>i. (i, fl64 (of_int i * fl64 q), fl64 q)) [0..num_scenes - 1])
          = sum_list (map (\<lambda>i. fl64 q) [0..num_scenes - 1])"
    by (rule total_of_map)
  also have "\<dots> = of_int num_scenes * fl64 q"
    using assms(1) by (intro sum_list_constant_upto) simp
  finally have "total_of (map (\<lambda>i. (i, fl64 (of_int i * fl64 q), fl64 q)) [0..num_scenes - 1]) - dur
          = of_int num_scenes * (fl64 q - q)"
    by (simp add: d algebra_simps)
  then have "\<bar>total_of (map (\<lambda>i. (i, fl64 (of_int i * fl64 q), fl64 q)) [0..num_scenes - 1]) - dur\<bar>
          = of_int num_scenes * \<bar>fl64 q - q\<bar>"
    using n by (simp add: abs_mult)
  also have "\<dots> \<le> of_int num_scenes * (\<bar>q\<bar> / 2 ^ 53)"
    using n err by (intro mult_left_mono) simp_all
  also have "\<dots> = dur / 2 ^ 53" using qpos by (simp add: d)
  finally show ?thesis unfolding q_def .
qed

text \<open>
  Where the exact position is a whole number, the binary64 product can fall just short of
  it and the index rounds down to one less: for 31 timestamps and 23 scenes the position of
  sample 11 is exactly 15, the binary64 product is \<open>15 - 2 ^ (- 49)\<close> and the index 14.
  Everywhere else the two lists agree; both are strictly increasing from 0 to 30.
\<close>

lemma linspace_int_binary64_example:
  "linspace_int_fl64 30 23 =
     Inr [0, 1, 2, 4, 5, 6, 8, 9, 10, 12, 13, 14, 16, 17, 19, 20, 21, 23, 24, 25, 27, 28, 30]"
  "linspace_int 30 23 =
     Inr [0, 1, 2, 4, 5, 6, 8, 9, 10, 12, 13, 15, 16, 17, 19, 20, 21, 23, 24, 25, 27, 28, 30]"
  by code_simp+

subsection \<open>Claims about \<^verbatim>\<open>distribute_scenes_to_timings\<close>\<close>

text \<open>
  Claim C8, as stated, makes the durations of the even split sum to the total duration
  exactly. The method returns \<open>num_scenes\<close> copies of the binary64 quotient
  \<^verbatim>\<open>duration / num_scenes\<close>. For one second and six scenes (one beat, so the
  \<^verbatim>\<open>"beats"\<close> strategy falls back) each duration is the binary64 number nearest to
  \<open>1/6\<close>; six of them add up to \<open>1 - 2 ^ (- 54)\<close> as real numbers, and to
  \<open>1 - 2 ^ (- 53)\<close> when they are accumulated in binary64.
\<close>

theorem fallback_sum_inexact_counterexample:
  "distribute_scenes_to_timings_fl64 6
      \<lparr>duration = 1, beats = [1/2], onsets = [], scene_timings = [0, 1/2]\<rparr> ''beats''
    = Inr ([TimingsFewerThanScenes 1 6],
        [(0, 0, 6004799503160661 / 36028797018963968),
         (1, 6004799503160661 / 36028797018963968, 6004799503160661 / 36028797018963968),
         (2, 6004799503160661 / 18014398509481984, 6004799503160661 / 36028797018963968),
         (3, 1 / 2, 6004799503160661 / 36028797018963968),
         (4, 6004799503160661 / 9007199254740992, 6004799503160661 / 36028797018963968),
         (5, 3752999689475413 / 4503599627370496, 6004799503160661 / 36028797018963968)])
   \<and> total_of
        [(0, 0, 6004799503160661 / 36028797018963968),
         (1, 6004799503160661 / 36028797018963968, 6004799503160661 / 36028797018963968),
         (2, 6004799503160661 / 18014398509481984, 6004799503160661 / 36028797018963968),
         (3, 1 / 2, 6004799503160661 / 36028797018963968),
         (4, 6004799503160661 / 9007199254740992, 6004799503160661 / 36028797018963968),
         (5, 3752999689475413 / 4503599627370496, 6004799503160661 / 36028797018963968)]
       = 18014398509481983 / 18014398509481984
   \<and> float_sum 0
        [(0, 0, 6004799503160661 / 36028797018963968),
         (1, 6004799503160661 / 36028797018963968, 6004799503160661 / 36028797018963968),
         (2, 6004799503160661 / 18014398509481984, 6004799503160661 / 36028797018963968),
         (3, 1 / 2, 6004799503160661 / 36028797018963968),
         (4, 6004799503160661 / 9007199254740992, 6004799503160661 / 36028797018963968),
         (5, 3752999689475413 / 4503599627370496, 6004799503160661 / 36028797018963968)]
       = 9007199254740991 / 9007199254740992
   \<and> (18014398509481983 / 18014398509481984 :: real) \<noteq> 1
   \<and> (9007199254740991 / 9007199254740992 :: real) \<noteq> 1"
  by code_simp

text \<open>
  Claim C8, amended: for a strategy other than \<^verbatim>\<open>"evenly"\<close> (so \<^verbatim>\<open>"beats"\<close>,
  \<^verbatim>\<open>"onsets"\<close> and \<^verbatim>\<open>"auto"\<close>) whose source list is shorter than
  \<open>num_scenes\<close>, the method prints the warning and returns the same \<open>num_scenes\<close>
  allocations as the \<^verbatim>\<open>"evenly"\<close> strategy: each duration is the binary64 quotient
  \<open>fl64 (duration / num_scenes)\<close> and the starts are the binary64 products of \<open>i\<close> with
  it. Their durations sum to the total duration up to the rounding of the quotient: within
  \<open>duration / 2 ^ 53\<close>, which is within a millisecond for any duration up to
  \<open>10 ^ 12\<close> seconds. The inputs are those of the normal binary64 range: fewer than
  \<open>2 ^ 53\<close> scenes, a quotient of at least \<open>2 ^ (- 1022)\<close> and a duration below
  \<open>2 ^ 1023\<close>.
\<close>

theorem fallback_even_split:
  assumes "strategy \<noteq> ''evenly''"
    and "int (length (source_timings analysis strategy)) < num_scenes"
    and "num_scenes < 2 ^ 53"
    and "2 powi (- 1022) \<le> duration analysis / of_int num_scenes"
    and "duration analysis < 2 ^ 1023"
  shows "\<exists>result.
        distribute_scenes_to_timings_fl64 num_scenes analysis strategy =
          Inr ([TimingsFewerThanScenes (length (source_timings analysis strategy)) num_scenes],
               result)
      \<and> distribute_scenes_to_timings_fl64 num_scenes analysis ''evenly'' = Inr ([], result)
      \<and> result = map (\<lambda>i. (i, fl64 (of_int i * fl64 (duration analysis / of_int num_scenes)),
                              fl64 (duration analysis / of_int num_scenes))) [0..num_scenes - 1]
      \<and> int (length result) = num_scenes
      \<and> \<bar>total_of result - duration analysis\<bar> \<le> duration analysis / 2 ^ 53
      \<and> (duration analysis \<le> 10 ^ 12 \<longrightarrow> \<bar>total_of result - duration analysis\<bar> \<le> 1 / 1000)"
proof -
  have n: "1 \<le> num_scenes" using assms(2) by linarith
  define result where "result = map (\<lambda>i. (i, fl64 (of_int i * fl64 (duration analysis / of_int num_scenes)),
                              fl64 (duration analysis / of_int num_scenes))) [0..num_scenes - 1]"
  have fb: "distribute_scenes_to_timings_fl64 num_scenes analysis strategy =
          Inr ([TimingsFewerThanScenes (length (source_timings analysis strategy)) num_scenes],
               result)"
    unfolding result_def by (rule distribute_fl64_fallback[OF assms(1,2,3)])
  have ev: "distribute_scenes_to_timings_fl64 num_scenes analysis ''evenly'' = Inr ([], result)"
    unfolding result_def by (rule distribute_fl64_evenly[OF n assms(3)])
  have len: "int (length result) = num_scenes" using n by (simp add: result_def)
  have tot: "\<bar>total_of result - duration analysis\<bar> \<le> duration analysis / 2 ^ 53"
    unfolding result_def by (rule even_split_fl64_total[OF n assms(4)])
  have small: "\<bar>total_of result - duration analysis\<bar> \<le> 1 / 1000"
    if "duration analysis \<le> 10 ^ 12"
  proof -
    have "duration analysis / 2 ^ 53 \<le> 10 ^ 12 / 2 ^ 53"
      using that by (intro divide_right_mono) simp_all
    also have "\<dots> \<le> (1 / 1000 :: real)" by simp
    finally show ?thesis using tot by linarith
  qed
  show ?thesis using fb ev len tot small result_def by blast
qed

theorem fallback_even_split_witness:
  "\<exists>result.
      distribute_scenes_to_timings_fl64 6
        \<lparr>duration = 1, beats = [1/2], onsets = [], scene_timings = [0, 1/2]\<rparr> ''beats''
        = Inr ([TimingsFewerThanScenes 1 6], result)
    \<and> distribute_scenes_to_timings_fl64 6
        \<lparr>duration = 1, beats = [1/2], onsets = [], scene_timings = [0, 1/2]\<rparr> ''evenly''
        = Inr ([], result)
    \<and> int (length result) = 6
    \<and> \<bar>total_of result - 1\<bar> \<le> 1 / 2 ^ 53
    \<and> \<bar>total_of result - 1\<bar> \<le> 1 / 1000"
proof -
  have small: "2 powi (- 1022) \<le> (1 / 6 :: real)"
  proof -
    have "(2::real) powi (- 1022) \<le> 2 powi (- 3)"
      by (intro power_int_increasing) simp_all
    also have "\<dots> \<le> (1 / 6 :: real)" by (simp add: power_int_minus)
    finally show ?thesis .
  qed
  have big: "(1::real) < 2 ^ 1023" by (rule one_less_power) simp_all
  show ?thesis
    using fallback_even_split[of "''beats''"
      "\<lparr>duration = 1, beats = [1/2], onsets = [], scene_timings = [0, 1/2]\<rparr>" 6]
      small big
    by (fastforce simp add: source_timings_def)
qed

text \<open>
  Claim C3, as stated, makes the durations sum to the total duration for every strategy.
  With beats at 1, 2 and 3 seconds, three scenes and 10 seconds of audio, the
  \<^verbatim>\<open>"beats"\<close> strategy starts the first scene at 1 s and the durations sum to 9.
\<close>

theorem durations_sum_counterexample:
  "distribute_scenes_to_timings 3
      \<lparr>duration = 10, beats = [1, 2, 3], onsets = [], scene_timings = [0, 1, 2, 3]\<rparr> ''beats''
    = Inr ([], [(0, 1, 1), (1, 2, 1), (2, 3, 7)])
   \<and> total_of [(0, 1, 1), (1, 2, 1), (2, 3, 7)] = 9
   \<and> \<not> \<bar>9 - 10 :: real\<bar> \<le> 1 / 1000"
  by code_simp

text \<open>
  Over exact reals the durations telescope: their sum is the total duration minus the start
  of the first allocation.
\<close>

lemma durations_sum_exact:
  assumes "1 \<le> num_scenes"
  shows "\<exists>diags result.
        distribute_scenes_to_timings num_scenes analysis strategy = Inr (diags, result)
      \<and> result \<noteq> []
      \<and> total_of result = duration analysis - start_time (hd result)
      \<and> (strategy = ''evenly'' \<or> int (length (source_timings analysis strategy)) < num_scenes
           \<longrightarrow> total_of result = duration analysis)
      \<and> (strategy \<noteq> ''evenly'' \<and> num_scenes \<le> int (length (source_timings analysis strategy))
           \<longrightarrow> total_of result = duration analysis - hd (source_timings analysis strategy))"
proof -
  have n0: "num_scenes \<noteq> 0" using assms by simp
  have ne: "map f [0..num_scenes - 1] \<noteq> []" for f :: "int \<Rightarrow> allocation" using assms by simp
  consider (evenly) "strategy = ''evenly''"
    | (fallback) "strategy \<noteq> ''evenly''"
        "int (length (source_timings analysis strategy)) < num_scenes"
    | (selected) "strategy \<noteq> ''evenly''"
        "num_scenes \<le> int (length (source_timings analysis strategy))"
    by linarith
  then show ?thesis
  proof cases
    case evenly
    show ?thesis
      using evenly distribute_evenly[OF n0, of analysis] ne
        even_split_total[OF assms, of "duration analysis"]
      by (simp add: hd_map_upto[OF assms] start_time_def)
  next
    case fallback
    show ?thesis
      using fallback distribute_fallback[OF fallback] ne
        even_split_total[OF assms, of "duration analysis"]
      by (simp add: hd_map_upto[OF assms] start_time_def)
  next
    case selected
    define src where "src = source_timings analysis strategy"
    define idx where "idx = sample_index (length src) num_scenes"
    define result where "result = map (\<lambda>i. (i, src ! nat (idx i),
          (if i < num_scenes - 1 then src ! nat (idx (i + 1)) else duration analysis)
          - src ! nat (idx i))) [0..num_scenes - 1]"
    have run: "distribute_scenes_to_timings num_scenes analysis strategy = Inr ([], result)"
      unfolding result_def idx_def src_def by (rule distribute_selected[OF selected(1) assms selected(2)])
    have "total_of result = sum_list (map (\<lambda>i.
          (if i < num_scenes - 1 then src ! nat (idx (i + 1)) else duration analysis)
          - src ! nat (idx i)) [0..num_scenes - 1])"
      unfolding result_def by (rule total_of_map)
    also have "\<dots> = duration analysis - src ! nat (idx 0)"
      using assms by (intro sum_list_telescope[of 0 num_scenes "\<lambda>i. src ! nat (idx i)"]) simp
    finally have total: "total_of result = duration analysis - src ! 0"
      by (simp add: idx_def sample_index_first)
    have "src \<noteq> []" using selected(2) assms by (auto simp add: src_def)
    then have hd: "src ! 0 = hd src" by (simp add: hd_conv_nth)
    have first: "start_time (hd result) = src ! 0"
      unfolding result_def by (simp add: hd_map_upto[OF assms] start_time_def idx_def sample_index_first)
    have "result \<noteq> []" unfolding result_def by (rule ne)
    then show ?thesis
      using run total hd first selected by (simp add: src_def)
  qed
qed

text \<open>
  Claim C3, amended: for every strategy and \<open>num_scenes \<ge> 1\<close> the method returns a
  non-empty list whose durations sum, to within \<open>1e-3\<close> seconds, to the total duration
  minus the start time of the first allocation. For \<^verbatim>\<open>"evenly"\<close> and for the fallback
  that is the total duration; otherwise it is the total duration minus the first timestamp
  of the source list.
\<close>

theorem durations_sum:
  assumes "1 \<le> num_scenes"
  shows "\<exists>diags result.
        distribute_scenes_to_timings num_scenes analysis strategy = Inr (diags, result)
      \<and> result \<noteq> []
      \<and> \<bar>total_of result - (duration analysis - start_time (hd result))\<bar> \<le> 1 / 1000
      \<and> (strategy = ''evenly'' \<or> int (length (source_timings analysis strategy)) < num_scenes
           \<longrightarrow> \<bar>total_of result - duration analysis\<bar> \<le> 1 / 1000)
      \<and> (strategy \<noteq> ''evenly'' \<and> num_scenes \<le> int (length (source_timings analysis strategy))
           \<longrightarrow> \<bar>total_of result
                  - (duration analysis - hd (source_timings analysis strategy))\<bar> \<le> 1 / 1000)"
proof -
  from durations_sum_exact[OF assms, of analysis strategy]
  obtain diags result where
    run: "distribute_scenes_to_timings num_scenes analysis strategy = Inr (diags, result)"
    and ne: "result \<noteq> []"
    and total: "total_of result = duration analysis - start_time (hd result)"
    and even: "strategy = ''evenly'' \<or> int (length (source_timings analysis strategy)) < num_scenes
           \<longrightarrow> total_of result = duration analysis"
    and sel: "strategy \<noteq> ''evenly'' \<and> num_scenes \<le> int (length (source_timings analysis strategy))
           \<longrightarrow> total_of result = duration analysis - hd (source_timings analysis strategy)"
    by blast
  have "\<bar>total_of result - (duration analysis - start_time (hd result))\<bar> \<le> 1 / 1000"
    using total by simp
  moreover have "strategy = ''evenly'' \<or> int (length (source_timings analysis strategy)) < num_scenes
           \<longrightarrow> \<bar>total_of result - duration analysis\<bar> \<le> 1 / 1000"
    using even by simp
  moreover have "strategy \<noteq> ''evenly'' \<and> num_scenes \<le> int (length (source_timings analysis strategy))
           \<longrightarrow> \<bar>total_of result
                  - (duration analysis - hd (source_timings analysis strategy))\<bar> \<le> 1 / 1000"
    using sel by simp
  ultimately show ?thesis using run ne by blast
qed

theorem durations_sum_witness:
  "(\<exists>diags result.
      distribute_scenes_to_timings 3
        \<lparr>duration = 10, beats = [], onsets = [], scene_timings = [0, 1, 5/2, 4, 6]\<rparr> ''auto''
        = Inr (diags, result)
    \<and> \<bar>total_of result - (10 - start_time (hd result))\<bar> \<le> 1 / 1000
    \<and> \<bar>total_of result - (10 - 0)\<bar> \<le> 1 / 1000)
   \<and> (\<exists>diags result.
      distribute_scenes_to_timings 4
        \<lparr>duration = 40, beats = [], onsets = [], scene_timings = [0]\<rparr> ''evenly''
        = Inr (diags, result)
    \<and> \<bar>total_of result - 40\<bar> \<le> 1 / 1000)"
proof -
  have selected: "\<exists>diags result.
      distribute_scenes_to_timings 3
        \<lparr>duration = 10, beats = [], onsets = [], scene_timings = [0, 1, 5/2, 4, 6]\<rparr> ''auto''
        = Inr (diags, result)
    \<and> \<bar>total_of result - (10 - start_time (hd result))\<bar> \<le> 1 / 1000
    \<and> \<bar>total_of result - (10 - 0)\<bar> \<le> 1 / 1000"
    using durations_sum[of 3
      "\<lparr>duration = 10, beats = [], onsets = [], scene_timings = [0, 1, 5/2, 4, 6]\<rparr>" "''auto''"]
    by (fastforce simp add: source_timings_def)
  have evenly: "\<exists>diags result.
      distribute_scenes_to_timings 4
        \<lparr>duration = 40, beats = [], onsets = [], scene_timings = [0]\<rparr> ''evenly''
        = Inr (diags, result)
    \<and> \<bar>total_of result - 40\<bar> \<le> 1 / 1000"
    using durations_sum[of 4
      "\<lparr>duration = 40, beats = [], onsets = [], scene_timings = [0]\<rparr>" "''evenly''"]
    by fastforce
  show ?thesis using selected evenly by blast
qed

text \<open>
  Claim C6, as stated, makes every duration strictly positive, by a minimum floor. The
  method has no floor: a last selected timestamp equal to the total duration gives the
  last scene duration 0, and a repeated timestamp gives a scene duration 0.
\<close>

theorem zero_duration_counterexample:
  "distribute_scenes_to_timings 3
      \<lparr>duration = 3, beats = [1, 2, 3], onsets = [], scene_timings = [0, 1, 2, 3]\<rparr> ''beats''
    = Inr ([], [(0, 1, 1), (1, 2, 1), (2, 3, 0)])
   \<and> scene_duration (2, 3, 0) = 0
   \<and> distribute_scenes_to_timings 3
      \<lparr>duration = 10, beats = [1, 1, 2], onsets = [], scene_timings = [0, 1, 2]\<rparr> ''beats''
    = Inr ([], [(0, 1, 0), (1, 1, 1), (2, 2, 8)])
   \<and> scene_duration (0, 1, 0) = 0"
  by code_simp

text \<open>
  Claim C6, amended: for \<open>num_scenes \<ge> 1\<close> and a positive total duration, every
  allocation has a strictly positive duration when the strategy is \<^verbatim>\<open>"evenly"\<close>, when
  the method falls back to the even split, or when the source list is strictly increasing
  and all its timestamps are before the total duration. No minimum duration is enforced.
\<close>

theorem durations_positive:
  assumes "1 \<le> num_scenes" "0 < duration analysis"
    and "strategy = ''evenly''
       \<or> int (length (source_timings analysis strategy)) < num_scenes
       \<or> (sorted_wrt (<) (source_timings analysis strategy)
          \<and> (\<forall>t \<in> set (source_timings analysis strategy). t < duration analysis))"
  shows "\<exists>diags result.
        distribute_scenes_to_timings num_scenes analysis strategy = Inr (diags, result)
      \<and> (\<forall>a \<in> set result. 0 < scene_duration a)"
proof -
  have n0: "num_scenes \<noteq> 0" using assms(1) by simp
  have even: "\<forall>a \<in> set (map (\<lambda>i. (i, of_int i * (duration analysis / of_int num_scenes),
                         duration analysis / of_int num_scenes)) [0..num_scenes - 1]).
                0 < scene_duration a"
    using assms(1,2) by (simp add: scene_duration_def)
  consider (evenly) "strategy = ''evenly''"
    | (fallback) "strategy \<noteq> ''evenly''"
        "int (length (source_timings analysis strategy)) < num_scenes"
    | (selected) "strategy \<noteq> ''evenly''"
        "num_scenes \<le> int (length (source_timings analysis strategy))"
    by linarith
  then show ?thesis
  proof cases
    case evenly
    show ?thesis
      using even distribute_evenly[OF n0, of analysis] unfolding evenly by blast
  next
    case fallback
    show ?thesis
      using even distribute_fallback[OF fallback] by blast
  next
    case selected
    define src where "src = source_timings analysis strategy"
    define idx where "idx = sample_index (length src) num_scenes"
    have len: "num_scenes \<le> int (length src)" using selected(2) by (simp add: src_def)
    have inc: "sorted_wrt (<) src" and below: "\<forall>t \<in> set src. t < duration analysis"
      using assms(3) selected by (simp_all add: src_def)
    have positive: "0 < (if i < num_scenes - 1 then src ! nat (idx (i + 1)) else duration analysis)
           - src ! nat (idx i)" if i: "0 \<le> i" "i \<le> num_scenes - 1" for i
    proof (cases "i < num_scenes - 1")
      case True
      have "idx i < idx (i + 1)"
        unfolding idx_def using True i by (intro sample_index_strict_mono[OF assms(1) len]) simp_all
      moreover have "0 \<le> idx i"
        unfolding idx_def using i by (intro sample_index_range[OF assms(1) len]) simp_all
      moreover have "idx (i + 1) < int (length src)"
        unfolding idx_def using True i by (intro sample_index_range[OF assms(1) len]) simp_all
      ultimately have "nat (idx i) < nat (idx (i + 1))" "nat (idx (i + 1)) < length src"
        by simp_all
      then have "src ! nat (idx i) < src ! nat (idx (i + 1))"
        using inc by (simp add: sorted_wrt_iff_nth_less)
      then show ?thesis using True by simp
    next
      case False
      have "0 \<le> idx i" "idx i < int (length src)"
        unfolding idx_def using i by (intro sample_index_range[OF assms(1) len]; simp)+
      then have "src ! nat (idx i) \<in> set src" by (intro nth_mem) simp
      then show ?thesis using below False by simp
    qed
    have "distribute_scenes_to_timings num_scenes analysis strategy =
      Inr ([], map (\<lambda>i. (i, src ! nat (idx i),
          (if i < num_scenes - 1 then src ! nat (idx (i + 1)) else duration analysis)
          - src ! nat (idx i))) [0..num_scenes - 1])"
      unfolding idx_def src_def by (rule distribute_selected[OF selected(1) assms(1) selected(2)])
    moreover have "\<forall>a \<in> set (map (\<lambda>i. (i, src ! nat (idx i),
          (if i < num_scenes - 1 then src ! nat (idx (i + 1)) else duration analysis)
          - src ! nat (idx i))) [0..num_scenes - 1]). 0 < scene_duration a"
      using positive by (simp add: scene_duration_def)
    ultimately show ?thesis by blast
  qed
qed

theorem durations_positive_witness:
  "\<exists>diags result.
      distribute_scenes_to_timings 3
        \<lparr>duration = 10, beats = [], onsets = [], scene_timings = [0, 1, 5/2, 4, 6]\<rparr> ''auto''
        = Inr (diags, result)
    \<and> (\<forall>a \<in> set result. 0 < scene_duration a)"
  using durations_positive[of 3
      "\<lparr>duration = 10, beats = [], onsets = [], scene_timings = [0, 1, 5/2, 4, 6]\<rparr>" "''auto''"]
  by (simp add: source_timings_def)

text \<open>
  Claim C10: for every strategy, \<open>num_scenes \<ge> 1\<close>, a positive total duration and a
  sorted source list, the method returns exactly \<open>num_scenes\<close> tuples, their scene indices
  are \<open>0, 1, ..., num_scenes - 1\<close> in this order, and their start times do not decrease.
\<close>

theorem allocation_indices_and_starts:
  assumes "1 \<le> num_scenes" "0 < duration analysis"
    and "sorted (source_timings analysis strategy)"
  shows "\<exists>diags result.
        distribute_scenes_to_timings num_scenes analysis strategy = Inr (diags, result)
      \<and> int (length result) = num_scenes
      \<and> map scene_index result = [0..num_scenes - 1]
      \<and> sorted (map start_time result)"
proof -
  have n0: "num_scenes \<noteq> 0" using assms(1) by simp
  define even where "even = map (\<lambda>i. (i, of_int i * (duration analysis / of_int num_scenes),
                         duration analysis / of_int num_scenes)) [0..num_scenes - 1]"
  have step: "0 \<le> duration analysis / of_int num_scenes" using assms(1,2) by simp
  have later: "real_of_int i * (duration analysis / of_int num_scenes)
                 \<le> real_of_int j * (duration analysis / of_int num_scenes)"
    if "i \<in> set [0..num_scenes - 1]" "j \<in> set [0..num_scenes - 1]" "i < j" for i j
    using step that(3) by (intro mult_right_mono) simp_all
  have "sorted_wrt (\<lambda>i j. real_of_int i * (duration analysis / of_int num_scenes)
                       \<le> real_of_int j * (duration analysis / of_int num_scenes)) [0..num_scenes - 1]"
    using later by (rule sorted_wrt_mono_rel[OF _ sorted_wrt_upto])
  then have "sorted (map start_time even)"
    unfolding even_def start_time_map by (simp add: sorted_map)
  then have even: "int (length even) = num_scenes \<and> map scene_index even = [0..num_scenes - 1]
      \<and> sorted (map start_time even)"
    using assms(1) unfolding even_def scene_index_map by simp
  consider (evenly) "strategy = ''evenly''"
    | (fallback) "strategy \<noteq> ''evenly''"
        "int (length (source_timings analysis strategy)) < num_scenes"
    | (selected) "strategy \<noteq> ''evenly''"
        "num_scenes \<le> int (length (source_timings analysis strategy))"
    by linarith
  then show ?thesis
  proof cases
    case evenly
    show ?thesis
      using even distribute_evenly[OF n0, of analysis] unfolding evenly even_def by blast
  next
    case fallback
    show ?thesis
      using even distribute_fallback[OF fallback] unfolding even_def by blast
  next
    case selected
    define src where "src = source_timings analysis strategy"
    define idx where "idx = sample_index (length src) num_scenes"
    define result where "result = map (\<lambda>i. (i, src ! nat (idx i),
          (if i < num_scenes - 1 then src ! nat (idx (i + 1)) else duration analysis)
          - src ! nat (idx i))) [0..num_scenes - 1]"
    have len: "num_scenes \<le> int (length src)" using selected(2) by (simp add: src_def)
    have run: "distribute_scenes_to_timings num_scenes analysis strategy = Inr ([], result)"
      unfolding result_def idx_def src_def
      by (rule distribute_selected[OF selected(1) assms(1) selected(2)])
    have order: "src ! nat (idx i) \<le> src ! nat (idx j)"
      if "i \<in> set [0..num_scenes - 1]" "j \<in> set [0..num_scenes - 1]" "i < j" for i j
    proof -
      have ij: "0 \<le> i" "i < j" "j \<le> num_scenes - 1" using that by simp_all
      have "idx i < idx j"
        unfolding idx_def using ij by (intro sample_index_strict_mono[OF assms(1) len]) simp_all
      moreover have "0 \<le> idx i"
        unfolding idx_def using ij by (intro sample_index_range[OF assms(1) len]) simp_all
      moreover have "idx j < int (length src)"
        unfolding idx_def using ij by (intro sample_index_range[OF assms(1) len]) simp_all
      ultimately have "nat (idx i) \<le> nat (idx j)" "nat (idx j) < length src" by simp_all
      then show ?thesis using assms(3) unfolding src_def[symmetric] by (rule sorted_nth_mono[rotated])
    qed
    have "sorted_wrt (\<lambda>i j. src ! nat (idx i) \<le> src ! nat (idx j)) [0..num_scenes - 1]"
      using order by (rule sorted_wrt_mono_rel[OF _ sorted_wrt_upto])
    then have "sorted (map start_time result)"
      unfolding result_def start_time_map by (simp add: sorted_map)
    moreover have "int (length result) = num_scenes" using assms(1) by (simp add: result_def)
    moreover have "map scene_index result = [0..num_scenes - 1]"
      unfolding result_def by (rule scene_index_map)
    ultimately show ?thesis using run by blast
  qed
qed

theorem allocation_indices_and_starts_witness:
  "\<exists>diags result.
      distribute_scenes_to_timings 3
        \<lparr>duration = 10, beats = [1/2, 1, 2, 3, 9/2], onsets = [], scene_timings = [0, 1, 2]\<rparr> ''beats''
        = Inr (diags, result)
    \<and> int (length result) = 3 \<and> map scene_index result = [0, 1, 2]
    \<and> sorted (map start_time result)"
proof -
  have scenes: "[0..2::int] = [0, 1, 2]" by code_simp
  show ?thesis
    using allocation_indices_and_starts[of 3
      "\<lparr>duration = 10, beats = [1/2, 1, 2, 3, 9/2], onsets = [], scene_timings = [0, 1, 2]\<rparr>" "''beats''"]
    by (simp add: source_timings_def scenes)
qed

text \<open>
  Claim C7, as stated, rounds the interpolated position to the nearest index. The
  conversion to integers rounds down: for six timestamps and four scenes the positions are
  \<open>0, 5/3, 10/3, 5\<close> and the indices are \<open>0, 1, 3, 5\<close>, where the nearest index to
  \<open>5/3\<close> is 2.
\<close>

theorem floor_not_nearest_counterexample:
  "linspace_int 5 4 = Inr [0, 1, 3, 5]
   \<and> round (1 * (5 / 3) :: real) = 2
   \<and> distribute_scenes_to_timings 4
      \<lparr>duration = 10, beats = [], onsets = [], scene_timings = [0, 1, 2, 3, 4, 5]\<rparr> ''auto''
    = Inr ([], [(0, 0, 1), (1, 1, 2), (2, 3, 2), (3, 5, 5)])"
  by code_simp

text \<open>
  Claim C7, amended: when the source list has at least \<open>num_scenes \<ge> 1\<close> elements, the
  method selects \<open>num_scenes\<close> indices and scene \<open>k\<close> starts at the source timestamp of
  the \<open>k\<close>-th selected index. The indices lie between 0 and \<open>len - 1\<close>, start at 0, end
  at \<open>len - 1\<close> when there are at least two scenes, and increase strictly. Each one is
  the interpolated position \<open>k * (len - 1) / (num_scenes - 1)\<close> rounded down: it is at most
  the position and at least the position minus one, never the nearest index above the
  position. The witness is the instance of the claim: timeline
  \<open>[0.0, 1.0, 2.5, 4.0, 6.0]\<close> and three scenes select the indices \<open>[0, 2, 4]\<close>, giving
  the starts \<open>[0.0, 2.5, 6.0]\<close> and the durations \<open>[2.5, 3.5, total - 6.0]\<close>.
\<close>

theorem selected_indices_floor:
  assumes "strategy \<noteq> ''evenly''" "1 \<le> num_scenes"
    and "num_scenes \<le> int (length (source_timings analysis strategy))"
    and "timings = source_timings analysis strategy"
  shows "\<exists>selected_indices result.
        linspace_int (int (length timings) - 1) num_scenes = Inr selected_indices
      \<and> distribute_scenes_to_timings num_scenes analysis strategy = Inr ([], result)
      \<and> int (length selected_indices) = num_scenes
      \<and> int (length result) = num_scenes
      \<and> sorted_wrt (<) selected_indices
      \<and> hd selected_indices = 0
      \<and> (2 \<le> num_scenes \<longrightarrow> last selected_indices = int (length timings) - 1)
      \<and> (\<forall>k < length selected_indices.
            0 \<le> selected_indices ! k \<and> selected_indices ! k \<le> int (length timings) - 1
          \<and> (2 \<le> num_scenes \<longrightarrow>
                of_int (selected_indices ! k)
                  \<le> (of_nat k * of_int (int (length timings) - 1) / of_int (num_scenes - 1) :: real)
              \<and> (of_nat k * of_int (int (length timings) - 1) / of_int (num_scenes - 1) :: real)
                  \<le> of_int (selected_indices ! k) + 1)
          \<and> scene_index (result ! k) = int k
          \<and> start_time (result ! k) = timings ! nat (selected_indices ! k))"
proof -
  define idx where "idx = sample_index (length timings) num_scenes"
  define selected_indices where "selected_indices = map idx [0..num_scenes - 1]"
  define result where "result = map (\<lambda>i. (i, timings ! nat (idx i),
               (if i < num_scenes - 1 then timings ! nat (idx (i + 1)) else duration analysis)
               - timings ! nat (idx i))) [0..num_scenes - 1]"
  have len: "num_scenes \<le> int (length timings)" using assms(3,4) by simp
  have lin: "linspace_int (int (length timings) - 1) num_scenes = Inr selected_indices"
    unfolding selected_indices_def idx_def using assms(2) by (intro linspace_int_samples) simp
  have run: "distribute_scenes_to_timings num_scenes analysis strategy = Inr ([], result)"
    unfolding result_def idx_def assms(4) by (rule distribute_selected[OF assms(1,2,3)])
  have l1: "int (length selected_indices) = num_scenes"
    using assms(2) by (simp add: selected_indices_def)
  have l2: "int (length result) = num_scenes" using assms(2) by (simp add: result_def)
  have later: "idx i < idx j"
    if "i \<in> set [0..num_scenes - 1]" "j \<in> set [0..num_scenes - 1]" "i < j" for i j
    unfolding idx_def using that by (intro sample_index_strict_mono[OF assms(2) len]) simp_all
  have "sorted_wrt (\<lambda>i j. idx i < idx j) [0..num_scenes - 1]"
    using later by (rule sorted_wrt_mono_rel[OF _ sorted_wrt_upto])
  then have inc: "sorted_wrt (<) selected_indices"
    by (simp add: selected_indices_def sorted_wrt_map)
  have first: "hd selected_indices = 0"
    unfolding selected_indices_def hd_map_upto[OF assms(2)] idx_def by (rule sample_index_first)
  have final: "last selected_indices = int (length timings) - 1" if "2 \<le> num_scenes"
  proof -
    have "[0..num_scenes - 1] \<noteq> []" using assms(2) by simp
    then have "last selected_indices = idx (last [0..num_scenes - 1])"
      unfolding selected_indices_def by (rule last_map)
    also have "last [0..num_scenes - 1] = num_scenes - 1"
      using assms(2) by (simp add: upto_rec2[of 0 "num_scenes - 1"])
    finally show ?thesis unfolding idx_def using sample_index_last[OF that] by simp
  qed
  have each: "0 \<le> selected_indices ! k \<and> selected_indices ! k \<le> int (length timings) - 1
          \<and> (2 \<le> num_scenes \<longrightarrow>
                of_int (selected_indices ! k)
                  \<le> (of_nat k * of_int (int (length timings) - 1) / of_int (num_scenes - 1) :: real)
              \<and> (of_nat k * of_int (int (length timings) - 1) / of_int (num_scenes - 1) :: real)
                  \<le> of_int (selected_indices ! k) + 1)
          \<and> scene_index (result ! k) = int k
          \<and> start_time (result ! k) = timings ! nat (selected_indices ! k)"
    if k: "k < length selected_indices" for k
  proof -
    have kn: "int k \<le> num_scenes - 1" using k l1 by simp
    have nth: "[0..num_scenes - 1] ! k = int k" using kn by simp
    have kl: "k < length [0..num_scenes - 1]" using k by (simp add: selected_indices_def)
    have sk: "selected_indices ! k = idx (int k)"
      unfolding selected_indices_def using kl by (simp add: nth)
    have rk: "result ! k = (int k, timings ! nat (idx (int k)),
               (if int k < num_scenes - 1 then timings ! nat (idx (int k + 1)) else duration analysis)
               - timings ! nat (idx (int k)))"
      unfolding result_def using kl by (simp add: nth)
    have rng: "0 \<le> idx (int k)" "idx (int k) < int (length timings)"
      unfolding idx_def using kn by (intro sample_index_range[OF assms(2) len]; simp)+
    have pos: "of_int (idx (int k))
                  \<le> (of_nat k * of_int (int (length timings) - 1) / of_int (num_scenes - 1) :: real)
              \<and> (of_nat k * of_int (int (length timings) - 1) / of_int (num_scenes - 1) :: real)
                  \<le> of_int (idx (int k)) + 1"
      if "2 \<le> num_scenes"
    proof -
      have "idx (int k) = \<lfloor>of_int (int k) * ((of_int (int (length timings) - 1) :: real) / of_int (num_scenes - 1))\<rfloor>"
        using that by (simp add: idx_def sample_index_def)
      then have "idx (int k) = \<lfloor>(of_nat k * of_int (int (length timings) - 1) / of_int (num_scenes - 1) :: real)\<rfloor>"
        by simp
      then show ?thesis by linarith
    qed
    show ?thesis
      using rng pos by (simp add: sk rk scene_index_def start_time_def)
  qed
  show ?thesis
    using lin run l1 l2 inc first final each by blast
qed

theorem selected_indices_floor_witness:
  "(\<exists>selected_indices result.
        linspace_int 4 3 = Inr selected_indices
      \<and> distribute_scenes_to_timings 3
          \<lparr>duration = 10, beats = [], onsets = [], scene_timings = [0, 1, 5/2, 4, 6]\<rparr> ''auto''
          = Inr ([], result)
      \<and> int (length selected_indices) = 3
      \<and> sorted_wrt (<) selected_indices
      \<and> hd selected_indices = 0 \<and> last selected_indices = 4)
   \<and> linspace_int 4 3 = Inr [0, 2, 4]
   \<and> distribute_scenes_to_timings 3
        \<lparr>duration = 10, beats = [], onsets = [], scene_timings = [0, 1, 5/2, 4, 6]\<rparr> ''auto''
      = Inr ([], [(0, 0, 5/2), (1, 5/2, 7/2), (2, 6, 10 - 6)])"
proof -
  have src: "[0, 1, 5/2, 4, 6] = source_timings
     \<lparr>duration = 10, beats = [], onsets = [], scene_timings = [0, 1, 5/2, 4, 6]\<rparr> ''auto''"
    by (simp add: source_timings_def)
  have general: "\<exists>selected_indices result.
        linspace_int 4 3 = Inr selected_indices
      \<and> distribute_scenes_to_timings 3
          \<lparr>duration = 10, beats = [], onsets = [], scene_timings = [0, 1, 5/2, 4, 6]\<rparr> ''auto''
          = Inr ([], result)
      \<and> int (length selected_indices) = 3
      \<and> sorted_wrt (<) selected_indices
      \<and> hd selected_indices = 0 \<and> last selected_indices = 4"
    using selected_indices_floor[OF _ _ _ src, of 3]
    by (fastforce simp add: source_timings_def)
  have indices: "linspace_int 4 3 = Inr [0, 2, 4]" by code_simp
  have run: "distribute_scenes_to_timings 3
        \<lparr>duration = 10, beats = [], onsets = [], scene_timings = [0, 1, 5/2, 4, 6]\<rparr> ''auto''
      = Inr ([], [(0, 0, 5/2), (1, 5/2, 7/2), (2, 6, 10 - 6)])" by code_simp
  show ?thesis using general indices run by blast
qed

end
